theory Spec2Isabelle
  imports Complex_Main
begin

section \<open>Dense arrays\<close>

text \<open>
  The kernels of \<^verbatim>\<open>tinygrad/ops.py\<close> work on numpy arrays. An array is modelled as numpy
  stores a C-contiguous one: a shape and the elements in row-major order. Python exceptions
  are values of \<open>error\<close>; a kernel that raises returns \<open>Inl\<close>. \<open>NotModelled\<close> marks
  the few uses of a numpy primitive on ranks that the kernels never produce from the inputs
  the specification describes, and that are left out of the model.
  All arrays of one computation have the same element type, as the specification fixes one
  element type per graph; the type is a parameter of the model, a semiring or a linear order
  as the kernel needs. The kernel that takes exponentials and logarithms works on real
  numbers and takes the rounding of its arithmetic as a parameter.
\<close>

datatype error = ValueError | IndexError | NotModelled

record 'a ndarray =
  shape :: "nat list"
  data :: "'a list"

definition wf_array :: "'a ndarray \<Rightarrow> bool" where
  "wf_array A \<longleftrightarrow> length (data A) = prod_list (shape A)"

text \<open>Row-major offset of a multi-index: the stride of an axis is the product of the later
  dimensions.\<close>

fun ravel :: "nat list \<Rightarrow> nat list \<Rightarrow> nat" where
  "ravel (d # ds) (i # js) = i * prod_list ds + ravel ds js"
| "ravel _ _ = 0"

fun valid_idx :: "nat list \<Rightarrow> nat list \<Rightarrow> bool" where
  "valid_idx [] [] = True"
| "valid_idx (d # ds) (i # js) = (i < d \<and> valid_idx ds js)"
| "valid_idx _ _ = False"

text \<open>All multi-indices of a shape, in row-major order.\<close>

fun indices :: "nat list \<Rightarrow> nat list list" where
  "indices [] = [[]]"
| "indices (d # ds) = concat (map (\<lambda>i. map ((#) i) (indices ds)) [0..<d])"

definition tabulate :: "nat list \<Rightarrow> (nat list \<Rightarrow> 'a) \<Rightarrow> 'a ndarray" where
  "tabulate s f = \<lparr>shape = s, data = map f (indices s)\<rparr>"

definition elt :: "'a ndarray \<Rightarrow> nat list \<Rightarrow> 'a" where
  "elt A idx = data A ! ravel (shape A) idx"

definition bind_err :: "error + 'a \<Rightarrow> ('a \<Rightarrow> error + 'b) \<Rightarrow> error + 'b" where
  "bind_err m f = (case m of Inl e \<Rightarrow> Inl e | Inr v \<Rightarrow> f v)"

subsection \<open>numpy primitives used by the kernels\<close>

text \<open>\<^verbatim>\<open>a.reshape(newshape)\<close>: a negative entry stands for the unknown dimension (usually
  written \<open>-1\<close>), which is inferred from the size; a second negative entry, or a size that
  does not fit, raise ValueError. The data are kept as they are.\<close>

definition infer_shape :: "nat \<Rightarrow> int list \<Rightarrow> error + nat list" where
  "infer_shape n s =
     (case filter (\<lambda>d. d < 0) s of
        [] \<Rightarrow> if prod_list (map nat s) = n then Inr (map nat s) else Inl ValueError
      | [u] \<Rightarrow>
          (let known = prod_list (map nat (filter (\<lambda>d. 0 \<le> d) s))
           in if known = 0 \<or> n mod known \<noteq> 0 then Inl ValueError
              else Inr (map (\<lambda>d. if d < 0 then n div known else nat d) s))
      | _ \<Rightarrow> Inl ValueError)"

definition reshape :: "'a ndarray \<Rightarrow> int list \<Rightarrow> error + 'a ndarray" where
  "reshape A s = bind_err (infer_shape (length (data A)) s) (\<lambda>s'. Inr (A\<lparr>shape := s'\<rparr>))"

text \<open>\<^verbatim>\<open>np.zeros(shape)\<close>: a negative dimension raises ValueError. \<^verbatim>\<open>np.zeros_like\<close> and
  \<^verbatim>\<open>np.ones_like\<close> take the shape of their argument.\<close>

definition full_array :: "nat list \<Rightarrow> 'a \<Rightarrow> 'a ndarray" where
  "full_array s v = tabulate s (\<lambda>idx. v)"

definition zeros :: "int list \<Rightarrow> error + ('a::zero) ndarray" where
  "zeros s = (if \<exists>d \<in> set s. d < 0 then Inl ValueError else Inr (full_array (map nat s) 0))"

definition zeros_like :: "'a ndarray \<Rightarrow> ('b::zero) ndarray" where
  "zeros_like A = full_array (shape A) 0"

definition ones_like :: "'a ndarray \<Rightarrow> ('b::one) ndarray" where
  "ones_like A = full_array (shape A) 1"

text \<open>Broadcasting: shapes are aligned at their last axis; two dimensions are compatible
  when they are equal or one of them is 1. An operand is read at the result index with its
  missing leading axes dropped and its axes of extent 1 read at 0.\<close>

fun broadcast_rev :: "nat list \<Rightarrow> nat list \<Rightarrow> error + nat list" where
  "broadcast_rev [] ys = Inr ys"
| "broadcast_rev xs [] = Inr xs"
| "broadcast_rev (x # xs) (y # ys) =
     (if x = y \<or> y = 1 then bind_err (broadcast_rev xs ys) (\<lambda>r. Inr (x # r))
      else if x = 1 then bind_err (broadcast_rev xs ys) (\<lambda>r. Inr (y # r))
      else Inl ValueError)"

definition broadcast_shapes :: "nat list \<Rightarrow> nat list \<Rightarrow> error + nat list" where
  "broadcast_shapes s t = bind_err (broadcast_rev (rev s) (rev t)) (\<lambda>r. Inr (rev r))"

definition bc_idx :: "nat list \<Rightarrow> nat list \<Rightarrow> nat list" where
  "bc_idx s idx = map2 (\<lambda>d i. if d = 1 then 0 else i) s (drop (length idx - length s) idx)"

definition ewise2 :: "('a \<Rightarrow> 'b \<Rightarrow> 'c) \<Rightarrow> 'a ndarray \<Rightarrow> 'b ndarray \<Rightarrow> error + 'c ndarray" where
  "ewise2 f A B =
     bind_err (broadcast_shapes (shape A) (shape B)) (\<lambda>s.
       Inr (tabulate s (\<lambda>idx. f (elt A (bc_idx (shape A) idx)) (elt B (bc_idx (shape B) idx)))))"

definition ewise1 :: "('a \<Rightarrow> 'b) \<Rightarrow> 'a ndarray \<Rightarrow> 'b ndarray" where
  "ewise1 f A = \<lparr>shape = shape A, data = map f (data A)\<rparr>"

text \<open>An in-place \<^verbatim>\<open>a += b\<close> broadcasts \<open>b\<close> to the shape of \<open>a\<close> and raises ValueError when
  the broadcast result would have another shape.\<close>

definition iadd :: "('a::plus) ndarray \<Rightarrow> 'a ndarray \<Rightarrow> error + 'a ndarray" where
  "iadd A B =
     (if broadcast_shapes (shape A) (shape B) = Inr (shape A) then ewise2 (+) A B
      else Inl ValueError)"

text \<open>\<^verbatim>\<open>a.dot(b)\<close> and \<^verbatim>\<open>a.T\<close> for matrices. The kernels apply them to 2-D arrays only.\<close>

definition dot :: "('a::semiring_0) ndarray \<Rightarrow> 'a ndarray \<Rightarrow> error + 'a ndarray" where
  "dot A B =
     (if length (shape A) = 2 \<and> length (shape B) = 2 then
        (if shape A ! 1 = shape B ! 0 then
           Inr (tabulate [shape A ! 0, shape B ! 1]
                  (\<lambda>idx. sum_list (map (\<lambda>l. elt A [idx ! 0, l] * elt B [l, idx ! 1])
                                      [0..<shape A ! 1])))
         else Inl ValueError)
      else Inl NotModelled)"

definition T :: "'a ndarray \<Rightarrow> 'a ndarray" where
  "T A = tabulate (rev (shape A)) (\<lambda>idx. elt A (rev idx))"

text \<open>\<^verbatim>\<open>np.transpose(a, order)\<close>: axis \<open>i\<close> of the result is axis \<open>order[i]\<close> of \<open>a\<close>.
  \<^verbatim>\<open>np.moveaxis(a, source, destination)\<close> builds the order as numpy does: the axes not
  named in \<open>source\<close>, in their order, and then each source axis inserted at its destination,
  by increasing destination.\<close>

definition index_of :: "nat list \<Rightarrow> nat \<Rightarrow> nat" where
  "index_of xs j = length (takeWhile (\<lambda>x. x \<noteq> j) xs)"

definition transpose_axes :: "'a ndarray \<Rightarrow> nat list \<Rightarrow> error + 'a ndarray" where
  "transpose_axes A ord =
     (if length ord = length (shape A) \<and> set ord = {..<length (shape A)} then
        Inr (tabulate (map (\<lambda>i. shape A ! i) ord)
               (\<lambda>idx. elt A (map (\<lambda>j. idx ! index_of ord j) [0..<length ord])))
      else Inl ValueError)"

definition insert_at :: "nat \<Rightarrow> 'a \<Rightarrow> 'a list \<Rightarrow> 'a list" where
  "insert_at i x xs = take i xs @ x # drop i xs"

definition moveaxis :: "'a ndarray \<Rightarrow> nat list \<Rightarrow> nat list \<Rightarrow> error + 'a ndarray" where
  "moveaxis A source destination =
     (let n = length (shape A) in
      if length source \<noteq> length destination \<or> \<not> distinct source \<or> \<not> distinct destination
         \<or> (\<exists>a \<in> set source \<union> set destination. n \<le> a)
      then Inl ValueError
      else transpose_axes A
             (foldl (\<lambda>ord (d, s). insert_at d s ord)
                    (filter (\<lambda>a. a \<notin> set source) [0..<n])
                    (sort_key fst (zip destination source))))"

text \<open>Basic indexing. An index item is a slice \<^verbatim>\<open>start:stop:step\<close> (no stop is \<open>None\<close>) or
  an integer; the kernels use non-negative starts, stops and indices and positive steps only.
  Python clips the bounds of a slice to the extent of the axis; an integer index out of
  range, or more items than axes, raise IndexError. Axes without an item are taken whole.\<close>

datatype ix = Slice nat "nat option" nat | At nat

definition slice_all :: ix where
  "slice_all = Slice 0 None 1"

definition slice_stop :: "nat \<Rightarrow> nat option \<Rightarrow> nat" where
  "slice_stop n stop = (case stop of None \<Rightarrow> n | Some e \<Rightarrow> min e n)"

definition slice_len :: "nat \<Rightarrow> nat \<Rightarrow> nat option \<Rightarrow> nat \<Rightarrow> nat" where
  "slice_len n start stop step = (slice_stop n stop - min start n + step - 1) div step"

fun index_shape :: "ix list \<Rightarrow> nat list \<Rightarrow> error + nat list" where
  "index_shape [] ns = Inr ns"
| "index_shape (i # r) [] = Inl IndexError"
| "index_shape (At i # r) (n # ns) = (if i < n then index_shape r ns else Inl IndexError)"
| "index_shape (Slice a b c # r) (n # ns) =
     (if c = 0 then Inl ValueError
      else bind_err (index_shape r ns) (\<lambda>s. Inr (slice_len n a b c # s)))"

text \<open>The position in the array of an element of the selection, and back: the position
  in the selection of an element of the array, when it is selected.\<close>

fun index_src :: "ix list \<Rightarrow> nat list \<Rightarrow> nat list \<Rightarrow> nat list" where
  "index_src (At i # r) (n # ns) idx = i # index_src r ns idx"
| "index_src (Slice a b c # r) (n # ns) (j # idx) = (min a n + j * c) # index_src r ns idx"
| "index_src r ns idx = idx"

fun index_dst :: "ix list \<Rightarrow> nat list \<Rightarrow> nat list \<Rightarrow> nat list option" where
  "index_dst (At i # r) (n # ns) (k # idx) = (if k = i then index_dst r ns idx else None)"
| "index_dst (Slice a b c # r) (n # ns) (k # idx) =
     (if min a n \<le> k \<and> k < slice_stop n b \<and> (k - min a n) mod c = 0
      then map_option ((#) ((k - min a n) div c)) (index_dst r ns idx)
      else None)"
| "index_dst r ns idx = Some idx"

definition getitem :: "'a ndarray \<Rightarrow> ix list \<Rightarrow> error + 'a ndarray" where
  "getitem A ixs =
     bind_err (index_shape ixs (shape A)) (\<lambda>s.
       Inr (tabulate s (\<lambda>idx. elt A (index_src ixs (shape A) idx))))"

text \<open>Assignment \<^verbatim>\<open>a[items] = v\<close> broadcasts \<open>v\<close> to the shape of the selection. (numpy
  also accepts a value with more axes when the extra leading ones have extent 1; the
  kernels never assign such a value.)\<close>

definition broadcast_to :: "'a ndarray \<Rightarrow> nat list \<Rightarrow> error + 'a ndarray" where
  "broadcast_to V s =
     (if length s < length (shape V) then Inl NotModelled
      else if broadcast_shapes s (shape V) = Inr s
      then Inr (tabulate s (\<lambda>idx. elt V (bc_idx (shape V) idx)))
      else Inl ValueError)"

definition setitem :: "'a ndarray \<Rightarrow> ix list \<Rightarrow> 'a ndarray \<Rightarrow> error + 'a ndarray" where
  "setitem A ixs V =
     bind_err (index_shape ixs (shape A)) (\<lambda>s.
     bind_err (broadcast_to V s) (\<lambda>V'.
       Inr (tabulate (shape A)
              (\<lambda>idx. case index_dst ixs (shape A) idx of
                        None \<Rightarrow> elt A idx
                      | Some j \<Rightarrow> elt V' j))))"

text \<open>\<^verbatim>\<open>a[items] += v\<close> reads the selection, adds in place and stores it back.\<close>

definition iadd_item :: "('a::plus) ndarray \<Rightarrow> ix list \<Rightarrow> 'a ndarray \<Rightarrow> error + 'a ndarray" where
  "iadd_item A ixs V =
     bind_err (getitem A ixs) (\<lambda>sel.
     bind_err (iadd sel V) (\<lambda>sel'. setitem A ixs sel'))"

text \<open>\<^verbatim>\<open>a[None]\<close> adds a leading axis of extent 1.\<close>

definition newaxis0 :: "'a ndarray \<Rightarrow> 'a ndarray" where
  "newaxis0 A = A\<lparr>shape := 1 # shape A\<rparr>"

text \<open>\<^verbatim>\<open>np.concatenate(arrays, axis=0)\<close>: the arrays must have the same number of axes, at
  least one, and agree on every axis but the first; otherwise ValueError.\<close>

definition concatenate0 :: "'a ndarray list \<Rightarrow> error + 'a ndarray" where
  "concatenate0 As =
     (case As of
        [] \<Rightarrow> Inl ValueError
      | A # Bs \<Rightarrow>
          if \<exists>B \<in> set As. shape B = [] then Inl ValueError
          else if \<exists>B \<in> set Bs. tl (shape B) \<noteq> tl (shape A) then Inl ValueError
          else Inr \<lparr>shape = sum_list (map (\<lambda>B. hd (shape B)) As) # tl (shape A),
                     data = concat (map data As)\<rparr>)"

text \<open>Reductions. \<^verbatim>\<open>np.argmax\<close> returns the first position of the maximum: it scans the
  candidates in order and moves only to a strictly greater one. Reducing an axis of extent 0
  with a maximum raises ValueError.\<close>

fun argmax_from :: "('a::linorder) \<Rightarrow> nat \<Rightarrow> nat \<Rightarrow> 'a list \<Rightarrow> nat" where
  "argmax_from m best i [] = best"
| "argmax_from m best i (v # vs) =
     (if m < v then argmax_from v i (Suc i) vs else argmax_from m best (Suc i) vs)"

definition argmax_list :: "('a::linorder) list \<Rightarrow> nat" where
  "argmax_list vs = argmax_from (hd vs) 0 1 (tl vs)"

definition max_list :: "('a::linorder) list \<Rightarrow> 'a" where
  "max_list vs = foldl max (hd vs) (tl vs)"

definition argmax0 :: "('a::linorder) ndarray \<Rightarrow> error + nat ndarray" where
  "argmax0 A =
     (case shape A of
        [] \<Rightarrow> Inl ValueError
      | d # s \<Rightarrow>
          if d = 0 then Inl ValueError
          else Inr (tabulate s (\<lambda>idx. argmax_list (map (\<lambda>k. elt A (k # idx)) [0..<d]))))"

definition max0 :: "('a::linorder) ndarray \<Rightarrow> error + 'a ndarray" where
  "max0 A =
     (case shape A of
        [] \<Rightarrow> Inl ValueError
      | d # s \<Rightarrow>
          if d = 0 then Inl ValueError
          else Inr (tabulate s (\<lambda>idx. max_list (map (\<lambda>k. elt A (k # idx)) [0..<d]))))"

text \<open>\<^verbatim>\<open>a.sum()\<close>, and \<^verbatim>\<open>a.max(axis=1)\<close> on a matrix (an array with fewer than two axes
  has no axis 1).\<close>

definition sum_all :: "('a::monoid_add) ndarray \<Rightarrow> 'a" where
  "sum_all A = sum_list (data A)"

definition max_axis1 :: "('a::linorder) ndarray \<Rightarrow> error + 'a ndarray" where
  "max_axis1 A =
     (if length (shape A) < 2 then Inl ValueError
      else if length (shape A) = 2 then
        (if shape A ! 1 = 0 then Inl ValueError
         else Inr (tabulate [shape A ! 0]
                     (\<lambda>idx. max_list (map (\<lambda>j. elt A [idx ! 0, j]) [0..<shape A ! 1]))))
      else Inl NotModelled)"

text \<open>A loop whose body may raise: the first error ends it.\<close>

fun fold_err :: "('s \<Rightarrow> 'x \<Rightarrow> error + 's) \<Rightarrow> 's \<Rightarrow> 'x list \<Rightarrow> error + 's" where
  "fold_err f s [] = Inr s"
| "fold_err f s (x # xs) = bind_err (f s x) (\<lambda>s'. fold_err f s' xs)"

section \<open>Context\<close>

text \<open>Modelled from the spec: \<^verbatim>\<open>save_for_backward\<close> of class \<^verbatim>\<open>Function\<close>
  (\<^verbatim>\<open>tinygrad/tensor.py\<close>, not among the sources). The Context is the per-invocation bag of
  saved values; saving appends the given values, and the paired backward reads them back by
  unpacking \<^verbatim>\<open>ctx.saved_tensors\<close>. A context is the list of the values saved so far; each
  operation saves values of one kind (arrays, shapes or index arrays).\<close>

definition save_for_backward :: "'s list \<Rightarrow> 's list \<Rightarrow> 's list" where
  "save_for_backward ctx xs = ctx @ xs"

section \<open>Reshape\<close>

definition Reshape_forward ::
  "nat list list \<Rightarrow> 'a ndarray \<Rightarrow> int list \<Rightarrow> error + (nat list list \<times> 'a ndarray)" where
  "Reshape_forward ctx x s =
     (let ctx' = save_for_backward ctx [shape x]
      in bind_err (reshape x s) (\<lambda>r. Inr (ctx', r)))"

text \<open>\<^verbatim>\<open>in_shape, = ctx.saved_tensors\<close> raises ValueError unless exactly one value was
  saved. The second component is the literal \<^verbatim>\<open>None\<close> returned for the shape argument.\<close>

definition Reshape_backward ::
  "nat list list \<Rightarrow> 'a ndarray \<Rightarrow> error + ('a ndarray option \<times> 'a ndarray option)" where
  "Reshape_backward ctx grad_output =
     (case ctx of
        [in_shape] \<Rightarrow> bind_err (reshape grad_output (map int in_shape)) (\<lambda>g. Inr (Some g, None))
      | _ \<Rightarrow> Inl ValueError)"

section \<open>Add\<close>

text \<open>The forward pass saves nothing; the backward pass never looks at the context.\<close>

definition Add_forward ::
  "'s list \<Rightarrow> ('a::plus) ndarray \<Rightarrow> 'a ndarray \<Rightarrow> error + ('s list \<times> 'a ndarray)" where
  "Add_forward ctx x y = bind_err (ewise2 (+) x y) (\<lambda>r. Inr (ctx, r))"

definition Add_backward ::
  "'s list \<Rightarrow> 'a ndarray \<Rightarrow> error + ('a ndarray option \<times> 'a ndarray option)" where
  "Add_backward ctx grad_output = Inr (Some grad_output, Some grad_output)"

section \<open>Dot\<close>

definition Dot_forward ::
  "'a ndarray list \<Rightarrow> ('a::semiring_0) ndarray \<Rightarrow> 'a ndarray
     \<Rightarrow> error + ('a ndarray list \<times> 'a ndarray)" where
  "Dot_forward ctx input weight =
     (let ctx' = save_for_backward ctx [input, weight]
      in bind_err (dot input weight) (\<lambda>r. Inr (ctx', r)))"

definition Dot_backward ::
  "('a::semiring_0) ndarray list \<Rightarrow> 'a ndarray
     \<Rightarrow> error + ('a ndarray option \<times> 'a ndarray option)" where
  "Dot_backward ctx grad_output =
     (case ctx of
        [input, weight] \<Rightarrow>
          bind_err (dot grad_output (T weight)) (\<lambda>grad_input.
          bind_err (dot (T grad_output) input) (\<lambda>gw.
            Inr (Some grad_input, Some (T gw))))
      | _ \<Rightarrow> Inl ValueError)"

section \<open>Sum\<close>

definition Sum_forward ::
  "'a ndarray list \<Rightarrow> ('a::monoid_add) ndarray \<Rightarrow> error + ('a ndarray list \<times> 'a ndarray)" where
  "Sum_forward ctx input =
     (let ctx' = save_for_backward ctx [input]
      in Inr (ctx', \<lparr>shape = [1], data = [sum_all input]\<rparr>))"

definition Sum_backward ::
  "('a::semiring_1) ndarray list \<Rightarrow> 'a ndarray \<Rightarrow> error + 'a ndarray option" where
  "Sum_backward ctx grad_output =
     (case ctx of
        [input] \<Rightarrow> bind_err (ewise2 (*) grad_output (ones_like input)) (\<lambda>r. Inr (Some r))
      | _ \<Rightarrow> Inl ValueError)"

section \<open>LogSoftmax\<close>

text \<open>The elements of this kernel are floating-point numbers, and what it returns depends on
  their rounding. An element is modelled as the real number it stands for, and every
  arithmetic operation returns the rounding \<open>rnd\<close> of its exact result, where \<open>rnd\<close> is a
  parameter of the kernel: \<open>fl64\<close> for \<^verbatim>\<open>float64\<close>, the default element type of numpy, and
  \<open>exact_arith\<close> for arithmetic without rounding. Taking a maximum, reshaping and indexing
  do not round.\<close>

definition exact_arith :: "real \<Rightarrow> real" where
  "exact_arith = (\<lambda>x. x)"

text \<open>Rounding to the nearest binary64 number, ties to even: a number \<open>x\<close> with
  \<open>2 ^ e \<le> \<bar>x\<bar> < 2 ^ (e + 1)\<close> is rounded to the nearest multiple of \<open>2 ^ (e - 52)\<close>. The
  range of the exponent is not bounded here: overflow to infinity and subnormal numbers are
  not modelled. \<^verbatim>\<open>np.exp\<close> and \<^verbatim>\<open>np.log\<close> are taken to return the rounding of the exact
  value.\<close>

definition ulp64 :: "int \<Rightarrow> real" where
  "ulp64 e = (if 52 \<le> e then 2 ^ nat (e - 52) else 1 / 2 ^ nat (52 - e))"

definition round_even :: "real \<Rightarrow> int" where
  "round_even y =
     (if frac y = 1 / 2 then (if even \<lfloor>y\<rfloor> then \<lfloor>y\<rfloor> else \<lfloor>y\<rfloor> + 1) else round y)"

definition fl64 :: "real \<Rightarrow> real" where
  "fl64 x =
     (if x = 0 then 0
      else ulp64 \<lfloor>log 2 \<bar>x\<bar>\<rfloor> * of_int (round_even (x / ulp64 \<lfloor>log 2 \<bar>x\<bar>\<rfloor>)))"

text \<open>\<^verbatim>\<open>a.sum(axis=1)\<close> on a matrix of floating-point numbers: the entries of a row are added
  from left to right, and every partial sum is rounded. (numpy adds in this order in a row of
  fewer than eight entries, and pairwise in a longer one.)\<close>

fun fsum :: "(real \<Rightarrow> real) \<Rightarrow> real list \<Rightarrow> real" where
  "fsum rnd [] = 0"
| "fsum rnd (v # vs) = foldl (\<lambda>acc w. rnd (acc + w)) v vs"

definition fsum_axis1 :: "(real \<Rightarrow> real) \<Rightarrow> real ndarray \<Rightarrow> error + real ndarray" where
  "fsum_axis1 rnd A =
     (if length (shape A) < 2 then Inl ValueError
      else if length (shape A) = 2 then
        Inr (tabulate [shape A ! 0]
               (\<lambda>idx. fsum rnd (map (\<lambda>j. elt A [idx ! 0, j]) [0..<shape A ! 1])))
      else Inl NotModelled)"

definition logsumexp :: "(real \<Rightarrow> real) \<Rightarrow> real ndarray \<Rightarrow> error + real ndarray" where
  "logsumexp rnd x =
     bind_err (max_axis1 x) (\<lambda>c.
     bind_err (reshape c [-1, 1]) (\<lambda>c1.
     bind_err (ewise2 (\<lambda>a b. rnd (a - b)) x c1) (\<lambda>d.
     bind_err (fsum_axis1 rnd (ewise1 (\<lambda>a. rnd (exp a)) d)) (\<lambda>s.
       ewise2 (\<lambda>a b. rnd (a + b)) c (ewise1 (\<lambda>a. rnd (ln a)) s)))))"

definition LogSoftmax_forward ::
  "(real \<Rightarrow> real) \<Rightarrow> real ndarray list \<Rightarrow> real ndarray
     \<Rightarrow> error + (real ndarray list \<times> real ndarray)" where
  "LogSoftmax_forward rnd ctx input =
     bind_err (logsumexp rnd input) (\<lambda>l.
     bind_err (reshape l [-1, 1]) (\<lambda>l1.
     bind_err (ewise2 (\<lambda>a b. rnd (a - b)) input l1) (\<lambda>output.
       Inr (save_for_backward ctx [output], output))))"

definition LogSoftmax_backward ::
  "(real \<Rightarrow> real) \<Rightarrow> real ndarray list \<Rightarrow> real ndarray \<Rightarrow> error + real ndarray option" where
  "LogSoftmax_backward rnd ctx grad_output =
     (case ctx of
        [output] \<Rightarrow>
          bind_err (fsum_axis1 rnd grad_output) (\<lambda>s.
          bind_err (reshape s [-1, 1]) (\<lambda>s1.
          bind_err (ewise2 (\<lambda>a b. rnd (a * b)) (ewise1 (\<lambda>a. rnd (exp a)) output) s1) (\<lambda>p.
          bind_err (ewise2 (\<lambda>a b. rnd (a - b)) grad_output p) (\<lambda>r. Inr (Some r)))))
      | _ \<Rightarrow> Inl ValueError)"

section \<open>Conv2D\<close>

definition patch_items :: "nat \<Rightarrow> nat \<Rightarrow> nat \<Rightarrow> nat \<Rightarrow> ix list" where
  "patch_items Y H X W = [slice_all, slice_all, Slice Y (Some (Y + H)) 1, Slice X (Some (X + W)) 1]"

text \<open>The body of the inner loop of \<^verbatim>\<open>Conv2D.forward\<close>.\<close>

definition Conv2D_forward_step ::
  "('a::semiring_0) ndarray \<Rightarrow> 'a ndarray \<Rightarrow> nat \<Rightarrow> nat \<Rightarrow> nat \<Rightarrow> nat
     \<Rightarrow> 'a ndarray \<Rightarrow> nat \<Rightarrow> error + 'a ndarray" where
  "Conv2D_forward_step x tw bs H W Y ret X =
     bind_err (getitem x (patch_items Y H X W)) (\<lambda>p.
     bind_err (reshape p [int bs, -1]) (\<lambda>tx.
     bind_err (dot tx tw) (\<lambda>v.
       setitem ret [slice_all, slice_all, At Y, At X] v)))"

definition Conv2D_forward ::
  "'a ndarray list \<Rightarrow> ('a::semiring_0) ndarray \<Rightarrow> 'a ndarray
     \<Rightarrow> error + ('a ndarray list \<times> 'a ndarray)" where
  "Conv2D_forward ctx x w =
     (case shape w of
        [cout, cin, H, W] \<Rightarrow>
          bind_err (reshape w [int cout, -1]) (\<lambda>w2.
          let tw = T w2 in
          if length (shape x) < 4 then Inl IndexError
          else
            let bs = shape x ! 0;
                oy = int (shape x ! 2) - (int H - 1);
                ox = int (shape x ! 3) - (int W - 1);
                ctx' = save_for_backward ctx [x, w]
            in
            bind_err (zeros [int bs, int cout, oy, ox]) (\<lambda>ret0.
            bind_err
              (fold_err (\<lambda>ret Y.
                 fold_err (Conv2D_forward_step x tw bs H W Y) ret [0..<nat ox])
                 ret0 [0..<nat oy])
              (\<lambda>ret. Inr (ctx', ret))))
      | _ \<Rightarrow> Inl ValueError)"

text \<open>The body of the inner loop of \<^verbatim>\<open>Conv2D.backward\<close>; the loop state is the pair of
  \<open>dx\<close> and \<open>dw\<close>.\<close>

definition Conv2D_backward_step ::
  "('a::semiring_0) ndarray \<Rightarrow> 'a ndarray \<Rightarrow> 'a ndarray \<Rightarrow> nat \<Rightarrow> nat \<Rightarrow> nat
     \<Rightarrow> 'a ndarray \<times> 'a ndarray \<Rightarrow> nat \<Rightarrow> error + ('a ndarray \<times> 'a ndarray)" where
  "Conv2D_backward_step grad_output x tw H W Y acc X =
     (case acc of (dx, dw) \<Rightarrow>
        bind_err (getitem grad_output [slice_all, slice_all, At Y, At X]) (\<lambda>gg.
        bind_err (getitem x (patch_items Y H X W)) (\<lambda>p.
        if shape x = [] then Inl IndexError
        else
          bind_err (reshape p [int (shape x ! 0), -1]) (\<lambda>tx.
          bind_err (dot (T gg) tx) (\<lambda>m1.
          bind_err (reshape m1 (map int (shape dw))) (\<lambda>m2.
          bind_err (iadd dw m2) (\<lambda>dw'.
          bind_err (dot gg tw) (\<lambda>m3.
          if length (shape dx) < 2 then Inl IndexError
          else
            bind_err (reshape m3 [int (shape dx ! 0), int (shape dx ! 1), int H, int W]) (\<lambda>m4.
            bind_err (iadd_item dx (patch_items Y H X W) m4) (\<lambda>dx'.
              Inr (dx', dw')))))))))))"

definition Conv2D_backward ::
  "('a::semiring_0) ndarray list \<Rightarrow> 'a ndarray
     \<Rightarrow> error + ('a ndarray option \<times> 'a ndarray option)" where
  "Conv2D_backward ctx grad_output =
     (case shape grad_output of
        [bs, uu, oy, ox] \<Rightarrow>
          (case ctx of
             [x, w] \<Rightarrow>
               (case shape w of
                  [cout, cin, H, W] \<Rightarrow>
                    bind_err (reshape w [int cout, -1]) (\<lambda>tw.
                    bind_err
                      (fold_err (\<lambda>acc Y.
                         fold_err (Conv2D_backward_step grad_output x tw H W Y) acc
                           [0..<shape grad_output ! 3])
                         (zeros_like x, zeros_like w) [0..<shape grad_output ! 2])
                      (\<lambda>(dx, dw). Inr (Some dx, Some dw)))
                | _ \<Rightarrow> Inl ValueError)
           | _ \<Rightarrow> Inl ValueError)
      | _ \<Rightarrow> Inl ValueError)"

section \<open>FastConv2D\<close>

text \<open>Modelled from the spec: \<^verbatim>\<open>im2col\<close> (\<^verbatim>\<open>tinygrad/utils.py\<close>, not among the sources), the
  patch extraction: it turns the 4-D input into the 2-D matrix whose rows are the flattened
  sliding-window patches, one row for each batch element and spatial position, in the order
  in which \<^verbatim>\<open>FastConv2D.forward\<close> reads them back (batch, then row, then column of the
  position), and each patch flattened as the kernel weights are (channel, then row, then
  column of the window). A kernel larger than the input is a shape mismatch.\<close>

definition im2col :: "'a ndarray \<Rightarrow> nat \<Rightarrow> nat \<Rightarrow> error + 'a ndarray" where
  "im2col x H W =
     (case shape x of
        [bs, cin, iy, ix] \<Rightarrow>
          if iy < H \<or> ix < W then Inl ValueError
          else
            let oy = iy + 1 - H; ox = ix + 1 - W
            in Inr ((tabulate [bs, oy, ox, cin, H, W]
                       (\<lambda>idx. elt x [idx ! 0, idx ! 3, idx ! 1 + idx ! 4, idx ! 2 + idx ! 5]))
                    \<lparr>shape := [bs * oy * ox, cin * H * W]\<rparr>)
      | _ \<Rightarrow> Inl ValueError)"

text \<open>Modelled from the spec: \<^verbatim>\<open>col2im\<close> (\<^verbatim>\<open>tinygrad/utils.py\<close>, not among the sources), the
  patch scatter, the exact adjoint of the patch extraction: its argument is read as an
  array of shape (bs, oy, ox, cin, H, W), as the comment in \<^verbatim>\<open>FastConv2D.backward\<close> says,
  and each entry of each patch is added into the input position it was extracted from, so
  that an input position receives the sum over all windows that overlap it.\<close>

definition col2im :: "('a::monoid_add) ndarray \<Rightarrow> nat \<Rightarrow> nat \<Rightarrow> int \<Rightarrow> int \<Rightarrow> error + 'a ndarray" where
  "col2im tx H W OY OX =
     (case shape tx of
        [rows, cols] \<Rightarrow>
          let oy = OY - (int H - 1); ox = OX - (int W - 1) in
          if OY < 0 \<or> OX < 0 \<or> oy \<le> 0 \<or> ox \<le> 0 \<or> H * W = 0
             \<or> rows mod (nat oy * nat ox) \<noteq> 0 \<or> cols mod (H * W) \<noteq> 0
          then Inl ValueError
          else
            let bs = rows div (nat oy * nat ox); cin = cols div (H * W);
                t6 = tx\<lparr>shape := [bs, nat oy, nat ox, cin, H, W]\<rparr>
            in Inr (tabulate [bs, cin, nat OY, nat OX]
                      (\<lambda>idx. sum_list (map (\<lambda>Y. sum_list (map (\<lambda>X.
                          if Y \<le> idx ! 2 \<and> idx ! 2 < Y + H \<and> X \<le> idx ! 3 \<and> idx ! 3 < X + W
                          then elt t6 [idx ! 0, Y, X, idx ! 1, idx ! 2 - Y, idx ! 3 - X]
                          else 0) [0..<nat ox])) [0..<nat oy])))
      | _ \<Rightarrow> Inl ValueError)"

text \<open>The two helpers are parameters of the kernel.\<close>

definition FastConv2D_forward ::
  "('a ndarray \<Rightarrow> nat \<Rightarrow> nat \<Rightarrow> error + 'a ndarray)
     \<Rightarrow> 'a ndarray list \<Rightarrow> ('a::semiring_0) ndarray \<Rightarrow> 'a ndarray
     \<Rightarrow> error + ('a ndarray list \<times> 'a ndarray)" where
  "FastConv2D_forward im2col_fn ctx x w =
     (case shape w of
        [cout, cin, H, W] \<Rightarrow>
          bind_err (reshape w [int cout, -1]) (\<lambda>w2.
          let tw = T w2 in
          if length (shape x) < 4 then Inl IndexError
          else
            let bs = shape x ! 0;
                oy = int (shape x ! 2) - (int H - 1);
                ox = int (shape x ! 3) - (int W - 1)
            in
            bind_err (im2col_fn x H W) (\<lambda>tx.
            let ctx' = save_for_backward ctx [tx, w] in
            bind_err (dot tx tw) (\<lambda>m.
            bind_err (reshape m [int bs, oy, ox, int cout]) (\<lambda>ret.
            bind_err (moveaxis ret [0, 1, 2, 3] [0, 2, 3, 1]) (\<lambda>r.
              Inr (ctx', r))))))
      | _ \<Rightarrow> Inl ValueError)"

definition FastConv2D_backward ::
  "('a ndarray \<Rightarrow> nat \<Rightarrow> nat \<Rightarrow> int \<Rightarrow> int \<Rightarrow> error + 'a ndarray)
     \<Rightarrow> ('a::semiring_0) ndarray list \<Rightarrow> 'a ndarray
     \<Rightarrow> error + ('a ndarray option \<times> 'a ndarray option)" where
  "FastConv2D_backward col2im_fn ctx grad_output =
     (case shape grad_output of
        [bs, uu, oy, ox] \<Rightarrow>
          (case ctx of
             [tx, w] \<Rightarrow>
               (case shape w of
                  [cout, cin, H, W] \<Rightarrow>
                    bind_err (reshape w [int cout, -1]) (\<lambda>tw.
                    bind_err (moveaxis grad_output [0, 1, 2, 3] [1, 0, 2, 3]) (\<lambda>gm.
                    bind_err (reshape gm [int cout, -1]) (\<lambda>ggt.
                    bind_err (dot ggt tx) (\<lambda>m1.
                    bind_err (reshape m1 (map int (shape w))) (\<lambda>dw.
                    bind_err (dot (T ggt) tw) (\<lambda>dxi.
                    bind_err (col2im_fn dxi H W (int oy + (int H - 1)) (int ox + (int W - 1)))
                      (\<lambda>dx. Inr (Some dx, Some dw))))))))
                | _ \<Rightarrow> Inl ValueError)
           | _ \<Rightarrow> Inl ValueError)
      | _ \<Rightarrow> Inl ValueError)"

section \<open>MaxPool2x2\<close>

definition pool_items :: "nat \<Rightarrow> nat \<Rightarrow> ix list" where
  "pool_items Y X = [slice_all, slice_all, Slice Y None 2, Slice X None 2]"

text \<open>The loop that collects the four strided slices, each with a new leading axis.\<close>

definition pool_stack :: "'a ndarray \<Rightarrow> error + 'a ndarray list" where
  "pool_stack x =
     fold_err (\<lambda>stack Y.
       fold_err (\<lambda>stack X.
         bind_err (getitem x (pool_items Y X)) (\<lambda>v. Inr (stack @ [newaxis0 v])))
         stack [0..<2])
       [] [0..<2]"

definition MaxPool2x2_forward ::
  "nat ndarray list \<Rightarrow> ('a::linorder) ndarray \<Rightarrow> error + (nat ndarray list \<times> 'a ndarray)" where
  "MaxPool2x2_forward ctx x =
     bind_err (pool_stack x) (\<lambda>stack.
     bind_err (concatenate0 stack) (\<lambda>stack.
     bind_err (argmax0 stack) (\<lambda>idxs.
     let ctx' = save_for_backward ctx [idxs] in
     bind_err (max0 stack) (\<lambda>r. Inr (ctx', r)))))"

text \<open>The body of the inner loop of \<^verbatim>\<open>MaxPool2x2.backward\<close>.\<close>

definition MaxPool2x2_backward_step ::
  "nat ndarray \<Rightarrow> ('a::semiring_1) ndarray \<Rightarrow> nat \<Rightarrow> 'a ndarray \<Rightarrow> nat \<Rightarrow> error + 'a ndarray" where
  "MaxPool2x2_backward_step idxs grad_output Y ret X =
     bind_err (ewise2 (\<lambda>g m. g * of_bool m) grad_output
                 (ewise1 (\<lambda>i. i = Y * 2 + X) idxs)) (\<lambda>v.
       setitem ret (pool_items Y X) v)"

definition MaxPool2x2_backward ::
  "nat ndarray list \<Rightarrow> ('a::semiring_1) ndarray \<Rightarrow> error + 'a ndarray option" where
  "MaxPool2x2_backward ctx grad_output =
     (case ctx of
        [idxs] \<Rightarrow>
          (let s = shape grad_output in
           if length s < 4 then Inl IndexError
           else
             bind_err (zeros [int (s ! 0), int (s ! 1), int (s ! 2 * 2), int (s ! 3 * 2)]) (\<lambda>ret0.
             bind_err
               (fold_err (\<lambda>ret Y.
                  fold_err (MaxPool2x2_backward_step idxs grad_output Y) ret [0..<2])
                  ret0 [0..<2])
               (\<lambda>ret. Inr (Some ret))))
      | _ \<Rightarrow> Inl ValueError)"

section \<open>Quantities of the specification\<close>

text \<open>The mathematical quantities in which the theorems below state what the kernels
  compute.\<close>

text \<open>The maximum of row \<open>i\<close> of a matrix with \<open>n\<close> columns, as \<^verbatim>\<open>x.max(axis=1)\<close> computes it.\<close>

definition rowmax :: "('a::linorder) ndarray \<Rightarrow> nat \<Rightarrow> nat \<Rightarrow> 'a" where
  "rowmax x n i = max_list (map (\<lambda>j. elt x [i, j]) [0..<n])"

text \<open>The value of \<^verbatim>\<open>logsumexp\<close> on row \<open>i\<close> of a matrix with \<open>n\<close> columns, operation by
  operation: the row maximum is subtracted, the exponentials are summed, and the maximum is
  added to the logarithm of the sum.\<close>

definition lse_row :: "(real \<Rightarrow> real) \<Rightarrow> real ndarray \<Rightarrow> nat \<Rightarrow> nat \<Rightarrow> real" where
  "lse_row rnd x n i =
     rnd (rowmax x n i
          + rnd (ln (fsum rnd (map (\<lambda>j. rnd (exp (rnd (elt x [i, j] - rowmax x n i)))) [0..<n]))))"

text \<open>The row-wise log-softmax of the specification, on a row \<open>v\<close> of \<open>n\<close> entries: entry
  \<open>k\<close> minus the logarithm of the sum of the exponentials of the row.\<close>

definition log_softmax_spec :: "nat \<Rightarrow> (nat \<Rightarrow> real) \<Rightarrow> nat \<Rightarrow> real" where
  "log_softmax_spec n v k = v k - ln (\<Sum>l<n. exp (v l))"

text \<open>The four candidates of the 2 by 2 block \<open>(i, j)\<close> of image \<open>(b, c)\<close>, in the order in
  which \<^verbatim>\<open>MaxPool2x2.forward\<close> stacks them: row offset Y first, column offset X second, so
  that candidate \<open>2 Y + X\<close> is the element at offsets \<open>(Y, X)\<close>.\<close>

definition pool_cands :: "'a ndarray \<Rightarrow> nat \<Rightarrow> nat \<Rightarrow> nat \<Rightarrow> nat \<Rightarrow> 'a list" where
  "pool_cands x b c i j =
     map (\<lambda>(Y, X). elt x [b, c, 2 * i + Y, 2 * j + X]) [(0, 0), (0, 1), (1, 0), (1, 1)]"

text \<open>The stride-1 convolution without padding and its two adjoints, entry by entry: the
  output at batch \<open>b\<close>, output channel \<open>c\<close> and position \<open>(Y, X)\<close>; the weight gradient at
  \<open>(c, ci, h, v)\<close>, summed over all windows; the input gradient at \<open>(b, ci, y, z)\<close>, summed
  over the windows that overlap the position.\<close>

definition conv2d_spec ::
  "('a::semiring_0) ndarray \<Rightarrow> 'a ndarray \<Rightarrow> nat \<Rightarrow> nat \<Rightarrow> nat \<Rightarrow> nat \<Rightarrow> nat \<Rightarrow> nat \<Rightarrow> nat \<Rightarrow> 'a" where
  "conv2d_spec x w cin H W b c Y X =
     (\<Sum>ci<cin. \<Sum>h<H. \<Sum>v<W. elt x [b, ci, Y + h, X + v] * elt w [c, ci, h, v])"

definition conv2d_dw_spec ::
  "('a::semiring_0) ndarray \<Rightarrow> 'a ndarray \<Rightarrow> nat \<Rightarrow> nat \<Rightarrow> nat \<Rightarrow> nat \<Rightarrow> nat \<Rightarrow> nat \<Rightarrow> nat \<Rightarrow> 'a" where
  "conv2d_dw_spec x g bs oy ox c ci h v =
     (\<Sum>b<bs. \<Sum>Y<oy. \<Sum>X<ox. elt g [b, c, Y, X] * elt x [b, ci, Y + h, X + v])"

definition conv2d_dx_spec ::
  "('a::semiring_0) ndarray \<Rightarrow> 'a ndarray \<Rightarrow> nat \<Rightarrow> nat \<Rightarrow> nat \<Rightarrow> nat \<Rightarrow> nat
     \<Rightarrow> nat \<Rightarrow> nat \<Rightarrow> nat \<Rightarrow> nat \<Rightarrow> 'a" where
  "conv2d_dx_spec w g cout oy ox H W b ci y z =
     (\<Sum>Y<oy. \<Sum>X<ox.
        if Y \<le> y \<and> y < Y + H \<and> X \<le> z \<and> z < X + W
        then (\<Sum>c<cout. elt g [b, c, Y, X] * elt w [c, ci, y - Y, z - X])
        else 0)"

text \<open>The contributions of one window \<open>(Y, X)\<close> to the two gradients.\<close>

definition window_dw ::
  "('a::semiring_0) ndarray \<Rightarrow> 'a ndarray \<Rightarrow> nat \<Rightarrow> nat \<Rightarrow> nat \<Rightarrow> nat \<Rightarrow> nat \<Rightarrow> nat \<Rightarrow> nat \<Rightarrow> 'a" where
  "window_dw x g bs Y X c ci h v = (\<Sum>b<bs. elt g [b, c, Y, X] * elt x [b, ci, Y + h, X + v])"

definition window_dx ::
  "('a::semiring_0) ndarray \<Rightarrow> 'a ndarray \<Rightarrow> nat \<Rightarrow> nat \<Rightarrow> nat \<Rightarrow> nat \<Rightarrow> nat
     \<Rightarrow> nat \<Rightarrow> nat \<Rightarrow> nat \<Rightarrow> nat \<Rightarrow> 'a" where
  "window_dx w g cout H W Y X b ci y z =
     (if Y \<le> y \<and> y < Y + H \<and> X \<le> z \<and> z < X + W
      then (\<Sum>c<cout. elt g [b, c, Y, X] * elt w [c, ci, y - Y, z - X])
      else 0)"

section \<open>Example inputs\<close>

text \<open>Small concrete arrays on which the theorems below are instantiated.\<close>

definition ex_x :: "int ndarray" where
  "ex_x = \<lparr>shape = [1, 2], data = [2, 3]\<rparr>"

definition ex_w :: "int ndarray" where
  "ex_w = \<lparr>shape = [2, 1], data = [5, 7]\<rparr>"

definition ex_g :: "int ndarray" where
  "ex_g = \<lparr>shape = [1, 1], data = [10]\<rparr>"

definition ex_v :: "int ndarray" where
  "ex_v = \<lparr>shape = [2], data = [1, 2]\<rparr>"

definition ex_v' :: "int ndarray" where
  "ex_v' = \<lparr>shape = [2], data = [2, 1]\<rparr>"

definition ex_s :: "int ndarray" where
  "ex_s = \<lparr>shape = [1], data = [7]\<rparr>"

definition ex_0d :: "int ndarray" where
  "ex_0d = \<lparr>shape = [], data = [5]\<rparr>"

definition ex_r :: "real ndarray" where
  "ex_r = \<lparr>shape = [2, 2], data = [0, 1, 2, 4]\<rparr>"

definition ex_rg :: "real ndarray" where
  "ex_rg = \<lparr>shape = [2, 2], data = [1, 0, 3, 5]\<rparr>"

definition ex_r0 :: "real ndarray" where
  "ex_r0 = \<lparr>shape = [1, 2], data = [0, 0]\<rparr>"

definition ex_big :: "real ndarray" where
  "ex_big = \<lparr>shape = [1, 2], data = [10 ^ 16, 10 ^ 16]\<rparr>"

definition ex_bg :: "real ndarray" where
  "ex_bg = \<lparr>shape = [1, 2], data = [1, 0]\<rparr>"

definition ex_p :: "int ndarray" where
  "ex_p = \<lparr>shape = [1, 1, 2, 2], data = [1, 5, 5, 0]\<rparr>"

definition ex_podd :: "int ndarray" where
  "ex_podd = \<lparr>shape = [1, 1, 3, 2], data = [1, 5, 5, 0, 2, 2]\<rparr>"

definition ex_pg :: "int ndarray" where
  "ex_pg = \<lparr>shape = [1, 1, 1, 1], data = [10]\<rparr>"

definition ex_cx :: "int ndarray" where
  "ex_cx = \<lparr>shape = [1, 1, 2, 2], data = [1, 2, 3, 4]\<rparr>"

definition ex_cw :: "int ndarray" where
  "ex_cw = \<lparr>shape = [1, 1, 1, 2], data = [5, 7]\<rparr>"

definition ex_cg :: "int ndarray" where
  "ex_cg = \<lparr>shape = [1, 1, 2, 1], data = [10, 100]\<rparr>"

definition ex_tx :: "int ndarray" where
  "ex_tx = \<lparr>shape = [2, 2], data = [1, 2, 3, 4]\<rparr>"

section \<open>Facts about arrays\<close>


lemma length_indices [simp]: "length (indices s) = prod_list s"
proof (induction s)
  case Nil
  show ?case by simp
next
  case (Cons d ds)
  have "length (concat (map (\<lambda>i. map ((#) i) (indices ds)) [0..<d])) = d * prod_list ds"
    by (simp add: length_concat comp_def Cons.IH sum_list_triv)
  then show ?case by simp
qed

lemma length_concat_uniform:
  "(\<And>i. i < n \<Longrightarrow> length (g i) = m) \<Longrightarrow> length (concat (map g [0..<n])) = n * m"
  by (induction n) auto

lemma concat_map_nth:
  assumes "\<And>i. i < n \<Longrightarrow> length (g i) = m" and "i < n" and "j < m"
  shows "concat (map g [0..<n]) ! (i * m + j) = g i ! j"
  using assms
proof (induction n)
  case 0
  then show ?case by simp
next
  case (Suc n)
  have len: "length (concat (map g [0..<n])) = n * m"
    using Suc.prems(1) by (intro length_concat_uniform) simp
  show ?case
  proof (cases "i < n")
    case True
    then have "Suc i * m \<le> n * m" by (intro mult_le_mono1) simp
    then have "i * m + j < n * m" using Suc.prems(3) by simp
    then show ?thesis
      using Suc True len by (simp add: nth_append)
  next
    case False
    then have "i = n" using Suc.prems(2) by simp
    then show ?thesis using len Suc.prems by (simp add: nth_append)
  qed
qed

lemma valid_idx_length: "valid_idx s idx \<Longrightarrow> length idx = length s"
  by (induction s idx rule: valid_idx.induct) auto

lemma ravel_less: "valid_idx s idx \<Longrightarrow> ravel s idx < prod_list s"
proof (induction s idx rule: valid_idx.induct)
  case (2 d ds i js)
  then have "i < d" and r: "ravel ds js < prod_list ds" by auto
  then have "i * prod_list ds + ravel ds js < Suc i * prod_list ds" by simp
  also have "\<dots> \<le> d * prod_list ds" using \<open>i < d\<close> by (intro mult_le_mono1) simp
  finally show ?case by simp
qed auto

lemma indices_nth_ravel: "valid_idx s idx \<Longrightarrow> indices s ! ravel s idx = idx"
proof (induction s idx rule: valid_idx.induct)
  case (2 d ds i js)
  then have "i < d" and v: "valid_idx ds js" by auto
  have "concat (map (\<lambda>i. map ((#) i) (indices ds)) [0..<d]) ! (i * prod_list ds + ravel ds js)
        = map ((#) i) (indices ds) ! ravel ds js"
    using \<open>i < d\<close> ravel_less[OF v] by (intro concat_map_nth) auto
  then show ?case using 2 ravel_less[OF v] by simp
qed auto

lemma elt_tabulate: "valid_idx s idx \<Longrightarrow> elt (tabulate s f) idx = f idx"
  by (simp add: elt_def tabulate_def ravel_less indices_nth_ravel)

lemma shape_tabulate [simp]: "shape (tabulate s f) = s"
  by (simp add: tabulate_def)

lemma wf_tabulate [simp]: "wf_array (tabulate s f)"
  by (simp add: tabulate_def wf_array_def)

lemma indices_nth_valid: "k < prod_list s \<Longrightarrow> valid_idx s (indices s ! k) \<and> ravel s (indices s ! k) = k"
proof (induction s arbitrary: k)
  case Nil
  then show ?case by simp
next
  case (Cons d ds)
  let ?P = "prod_list ds"
  from Cons.prems have P: "0 < ?P" by (cases "?P = 0") auto
  then have q: "k div ?P < d" using Cons.prems by (simp add: less_mult_imp_div_less mult.commute)
  have r: "k mod ?P < ?P" using P by simp
  have "concat (map (\<lambda>i. map ((#) i) (indices ds)) [0..<d]) ! (k div ?P * ?P + k mod ?P)
        = map ((#) (k div ?P)) (indices ds) ! (k mod ?P)"
    using q r by (intro concat_map_nth) auto
  then have "indices (d # ds) ! k = (k div ?P) # (indices ds ! (k mod ?P))"
    using r by simp
  then show ?case using Cons.IH[OF r] q by simp
qed

lemma tabulate_elt: "wf_array A \<Longrightarrow> tabulate (shape A) (elt A) = A"
proof -
  assume w: "wf_array A"
  have "map (elt A) (indices (shape A)) = data A"
  proof (rule nth_equalityI)
    show "length (map (elt A) (indices (shape A))) = length (data A)"
      using w by (simp add: wf_array_def)
  next
    fix k assume "k < length (map (elt A) (indices (shape A)))"
    then have "k < prod_list (shape A)" by simp
    then show "map (elt A) (indices (shape A)) ! k = data A ! k"
      using indices_nth_valid[of k "shape A"] by (simp add: elt_def)
  qed
  then show ?thesis by (simp add: tabulate_def)
qed

lemma set_indices: "idx \<in> set (indices s) \<longleftrightarrow> valid_idx s idx"
proof
  assume "idx \<in> set (indices s)"
  then obtain k where "k < prod_list s" "indices s ! k = idx"
    by (auto simp: in_set_conv_nth)
  then show "valid_idx s idx" using indices_nth_valid by blast
next
  assume v: "valid_idx s idx"
  then show "idx \<in> set (indices s)"
    using indices_nth_ravel[OF v] ravel_less[OF v] by (metis length_indices nth_mem)
qed

lemma tabulate_cong: "(\<And>idx. valid_idx s idx \<Longrightarrow> f idx = g idx) \<Longrightarrow> tabulate s f = tabulate s g"
  by (simp add: tabulate_def set_indices)

lemma array_eqI:
  assumes "wf_array A" "wf_array B" "shape A = shape B"
    and "\<And>idx. valid_idx (shape A) idx \<Longrightarrow> elt A idx = elt B idx"
  shows "A = B"
proof -
  have "tabulate (shape A) (elt A) = tabulate (shape A) (elt B)"
    using assms(4) by (rule tabulate_cong)
  then show ?thesis using assms(1-3) tabulate_elt by metis
qed

section \<open>Facts about reshape\<close>

lemma bind_err_Inr [simp]: "bind_err (Inr v) f = f v"
  by (simp add: bind_err_def)

lemma bind_err_Inl [simp]: "bind_err (Inl e) f = Inl e"
  by (simp add: bind_err_def)

lemma bind_err_eq_Inr:
  "bind_err m f = Inr r \<longleftrightarrow> (\<exists>v. m = Inr v \<and> f v = Inr r)"
  by (cases m) auto

lemma infer_shape_nat:
  "infer_shape n (map int s) = (if prod_list s = n then Inr s else Inl ValueError)"
proof -
  have "filter (\<lambda>d. d < 0) (map int s) = []"
    by (induction s) auto
  then show ?thesis
    unfolding infer_shape_def by (simp add: comp_def)
qed

lemma reshape_nat:
  "reshape A (map int s) =
     (if prod_list s = length (data A) then Inr (A\<lparr>shape := s\<rparr>) else Inl ValueError)"
  by (simp add: reshape_def infer_shape_nat)

lemma prod_list_no_unknown:
  "filter (\<lambda>d. d < 0) s = [] \<Longrightarrow>
     prod_list (map (\<lambda>d. if d < 0 then q else nat d) s) = prod_list (map nat s)
     \<and> filter (\<lambda>d. 0 \<le> d) s = s"
  by (induction s) (auto split: if_splits)

lemma prod_list_one_unknown:
  "length (filter (\<lambda>d. d < 0) s) = 1 \<Longrightarrow>
     prod_list (map (\<lambda>d. if d < 0 then q else nat d) s)
       = q * prod_list (map nat (filter (\<lambda>d. 0 \<le> d) s))"
proof (induction s)
  case Nil
  then show ?case by simp
next
  case (Cons d s)
  show ?case
  proof (cases "d < 0")
    case True
    with Cons.prems have "filter (\<lambda>d. d < 0) s = []" by simp
    from prod_list_no_unknown[OF this, of q] True show ?thesis by simp
  next
    case False
    with Cons show ?thesis by simp
  qed
qed

lemma infer_shape_size: "infer_shape n s = Inr s' \<Longrightarrow> prod_list s' = n"
proof -
  assume a: "infer_shape n s = Inr s'"
  show ?thesis
  proof (cases "filter (\<lambda>d. d < 0) s")
    case Nil
    with a show ?thesis
      by (auto simp: infer_shape_def split: if_splits)
  next
    case (Cons u us)
    with a have us: "us = []"
      by (auto simp: infer_shape_def split: if_splits list.splits)
    let ?known = "prod_list (map nat (filter (\<lambda>d. 0 \<le> d) s))"
    from a Cons us have k: "?known \<noteq> 0" "n mod ?known = 0"
      and s': "s' = map (\<lambda>d. if d < 0 then n div ?known else nat d) s"
      by (auto simp: infer_shape_def Let_def split: if_splits)
    from Cons us have "length (filter (\<lambda>d. d < 0) s) = 1" by simp
    from prod_list_one_unknown[OF this, of "n div ?known"] s' k mult_div_mod_eq[of ?known n]
    show ?thesis by (simp add: ac_simps)
  qed
qed

lemma reshape_Inr:
  "reshape A s = Inr B \<Longrightarrow> data B = data A \<and> prod_list (shape B) = length (data A)"
  by (auto simp: reshape_def bind_err_eq_Inr dest: infer_shape_size)

section \<open>Reshape: round trip\<close>

text \<open>
  Claim C5. For an array \<open>x\<close> and a target shape that \<^verbatim>\<open>reshape\<close> accepts, reshaping to
  the target and then back to the shape of \<open>x\<close> succeeds and returns \<open>x\<close> itself. The two
  backward passes, run in reverse order on an upstream gradient \<open>g\<close> of the shape of the
  final output, return \<open>g\<close> unchanged, each with the placeholder for its shape argument.
  Each forward call gets a fresh context, as an invocation does.
\<close>

theorem C5_reshape_round_trip:
  assumes "wf_array x" and "Reshape_forward [] x s = Inr (ctx1, y)"
  shows "\<exists>ctx2. Reshape_forward [] y (map int (shape x)) = Inr (ctx2, x)
           \<and> (\<forall>g. wf_array g \<and> shape g = shape x \<longrightarrow>
                (\<exists>g1. Reshape_backward ctx2 g = Inr (Some g1, None)
                     \<and> Reshape_backward ctx1 g1 = Inr (Some g, None)))"
proof -
  from assms(2) have c1: "ctx1 = [shape x]" and r: "reshape x s = Inr y"
    by (auto simp: Reshape_forward_def save_for_backward_def Let_def bind_err_eq_Inr)
  from reshape_Inr[OF r] have dy: "data y = data x" and py: "prod_list (shape y) = length (data x)"
    by auto
  from r have y: "y = x\<lparr>shape := shape y\<rparr>"
    by (auto simp: reshape_def bind_err_eq_Inr)
  have wx: "prod_list (shape x) = length (data x)"
    using assms(1) by (simp add: wf_array_def)
  have bk: "y\<lparr>shape := shape x\<rparr> = x"
    by (subst y) simp
  have f2: "Reshape_forward [] y (map int (shape x)) = Inr ([shape y], x)"
    by (simp add: Reshape_forward_def save_for_backward_def reshape_nat dy wx bk)
  have "\<exists>g1. Reshape_backward [shape y] g = Inr (Some g1, None)
              \<and> Reshape_backward ctx1 g1 = Inr (Some g, None)"
    if "wf_array g \<and> shape g = shape x" for g
  proof -
    from that have lg: "length (data g) = length (data x)"
      using wx by (simp add: wf_array_def)
    have "g\<lparr>shape := shape x\<rparr> = g" using that by simp
    then show ?thesis
      by (simp add: Reshape_backward_def reshape_nat c1 py lg wx)
  qed
  with f2 show ?thesis by blast
qed

theorem C5_reshape_round_trip_witness:
  "\<exists>ctx2. Reshape_forward [] \<lparr>shape = [3, 2], data = [1, 2, 3, 4, 5, 6 :: int]\<rparr> [2, 3]
             = Inr (ctx2, \<lparr>shape = [2, 3], data = [1, 2, 3, 4, 5, 6]\<rparr>)
     \<and> (\<forall>g. wf_array g \<and> shape g = [2, 3] \<longrightarrow>
           (\<exists>g1. Reshape_backward ctx2 g = Inr (Some g1, None)
                \<and> Reshape_backward [[2, 3]] g1 = Inr (Some g, None)))"
proof -
  let ?x = "\<lparr>shape = [2, 3], data = [1, 2, 3, 4, 5, 6 :: int]\<rparr>"
  let ?y = "\<lparr>shape = [3, 2], data = [1, 2, 3, 4, 5, 6 :: int]\<rparr>"
  have w: "wf_array ?x" by (simp add: wf_array_def)
  have f: "Reshape_forward [] ?x [3, -1] = Inr ([[2, 3]], ?y)"
    by (simp add: Reshape_forward_def save_for_backward_def reshape_def infer_shape_def)
  from C5_reshape_round_trip[OF w f] show ?thesis by simp
qed

text \<open>Any negative entry of the target shape is the unknown dimension, as in numpy; two of
  them, or a size that does not fit, raise ValueError.\<close>

lemma Reshape_forward_negative_entry:
  "Reshape_forward [] \<lparr>shape = [6], data = [1, 2, 3, 4, 5, 6 :: int]\<rparr> [-2, 3]
     = Inr ([[6]], \<lparr>shape = [2, 3], data = [1, 2, 3, 4, 5, 6]\<rparr>)"
  by (simp add: Reshape_forward_def save_for_backward_def reshape_def infer_shape_def)

lemma Reshape_forward_raises:
  "Reshape_forward [] \<lparr>shape = [6], data = [1, 2, 3, 4, 5, 6 :: int]\<rparr> [-1, -2] = Inl ValueError"
  "Reshape_forward [] \<lparr>shape = [6], data = [1, 2, 3, 4, 5, 6 :: int]\<rparr> [4, -1] = Inl ValueError"
  "Reshape_forward [] \<lparr>shape = [6], data = [1, 2, 3, 4, 5, 6 :: int]\<rparr> [4, 2] = Inl ValueError"
  by (simp_all add: Reshape_forward_def save_for_backward_def reshape_def infer_shape_def)

section \<open>Gradient placeholders\<close>

text \<open>
  Claim C6 as stated fails on the code: \<^verbatim>\<open>Add.backward\<close> returns the incoming gradient for
  both inputs, not the placeholder \<^verbatim>\<open>None\<close>.
\<close>

theorem C6_add_backward_counterexample:
  "Add_backward ([] :: nat list list) \<lparr>shape = [2], data = [3, 4 :: int]\<rparr>
     = Inr (Some \<lparr>shape = [2], data = [3, 4]\<rparr>, Some \<lparr>shape = [2], data = [3, 4]\<rparr>)
   \<and> Add_backward ([] :: nat list list) \<lparr>shape = [2], data = [3, 4 :: int]\<rparr> \<noteq> Inr (None, None)"
  by (simp add: Add_backward_def)

text \<open>
  Claim C6, as the code has it. \<^verbatim>\<open>Add.backward\<close> returns no placeholder: it returns the
  incoming gradient itself for each of its two inputs. \<^verbatim>\<open>Reshape.backward\<close> returns the
  placeholder \<^verbatim>\<open>None\<close> for its shape argument whenever it returns, and it returns for a
  gradient that has as many elements as the saved input shape.
\<close>

theorem C6_backward_placeholders:
  "Add_backward ctx g = Inr (Some g, Some g)
   \<and> (length (data g) = prod_list in_shape \<longrightarrow>
        Reshape_backward [in_shape] g = Inr (Some (g\<lparr>shape := in_shape\<rparr>), None))
   \<and> (\<forall>r p. Reshape_backward rctx g = Inr (r, p) \<longrightarrow> p = None)"
  by (auto simp: Add_backward_def Reshape_backward_def reshape_nat bind_err_eq_Inr
           split: list.splits)

theorem C6_backward_placeholders_witness:
  "Add_backward ([] :: nat list list) \<lparr>shape = [2], data = [3, 4 :: int]\<rparr>
     = Inr (Some \<lparr>shape = [2], data = [3, 4]\<rparr>, Some \<lparr>shape = [2], data = [3, 4]\<rparr>)
   \<and> Reshape_backward [[2, 1]] \<lparr>shape = [2], data = [3, 4 :: int]\<rparr>
     = Inr (Some \<lparr>shape = [2, 1], data = [3, 4]\<rparr>, None)"
  using C6_backward_placeholders[of "[] :: nat list list" "\<lparr>shape = [2], data = [3, 4 :: int]\<rparr>" "[2, 1]" "[[2, 1]]"]
  by simp

section \<open>Facts about matrices\<close>

lemma sum_list_upt: "sum_list (map f [0..<n]) = (\<Sum>j<n. f j)"
  by (simp add: interv_sum_list_conv_sum_set_nat atLeast0LessThan)

lemma valid_idx_Nil: "valid_idx [] idx \<longleftrightarrow> idx = []"
  by (cases idx) auto

lemma valid_idx_Cons:
  "valid_idx (d # ds) idx \<longleftrightarrow> (\<exists>i js. idx = i # js \<and> i < d \<and> valid_idx ds js)"
  by (cases idx) auto

lemma valid_idx2: "valid_idx [m, n] idx \<longleftrightarrow> (\<exists>i j. idx = [i, j] \<and> i < m \<and> j < n)"
  by (auto simp: valid_idx_Cons valid_idx_Nil)

lemma valid_idx4:
  "valid_idx [a, b, c, d] idx \<longleftrightarrow>
     (\<exists>i j k l. idx = [i, j, k, l] \<and> i < a \<and> j < b \<and> k < c \<and> l < d)"
  by (auto simp: valid_idx_Cons valid_idx_Nil)

lemma shape_T [simp]: "shape (T A) = rev (shape A)"
  by (simp add: T_def)

lemma wf_T [simp]: "wf_array (T A)"
  by (simp add: T_def)

lemma elt_T2: "shape A = [m, n] \<Longrightarrow> i < m \<Longrightarrow> j < n \<Longrightarrow> elt (T A) [j, i] = elt A [i, j]"
  by (simp add: T_def elt_tabulate)

lemma dot_matrix:
  "shape A = [m, k] \<Longrightarrow> shape B = [k, n] \<Longrightarrow>
     dot A B = Inr (tabulate [m, n] (\<lambda>idx. \<Sum>l<k. elt A [idx ! 0, l] * elt B [l, idx ! 1]))"
  by (simp add: dot_def sum_list_upt)

lemma dot_mismatch:
  "shape A = [m, k] \<Longrightarrow> shape B = [k', n] \<Longrightarrow> k \<noteq> k' \<Longrightarrow> dot A B = Inl ValueError"
  by (simp add: dot_def)

section \<open>Dot: the gradients of a matrix product\<close>

text \<open>
  Claim C2. For conformable matrices \<open>x\<close> (n by k) and \<open>w\<close> (k by m) and an output
  gradient \<open>g\<close> (n by m), the forward pass saves both operands, and the backward pass
  returns for the left operand the product of \<open>g\<close> with the transpose of \<open>w\<close>, and for
  the right operand the product of the transpose of \<open>x\<close> with \<open>g\<close>: the transpose of
  \<open>g\<^sup>T x\<close> that the code computes is that product. Both are also given entry by entry.
\<close>

theorem C2_dot_backward:
  fixes x w g :: "('a::comm_semiring_0) ndarray"
  assumes "shape x = [n, k]" and "shape w = [k, m]" and "shape g = [n, m]"
  shows "\<exists>y gi gw.
           Dot_forward [] x w = Inr ([x, w], y) \<and> shape y = [n, m]
         \<and> Dot_backward [x, w] g = Inr (Some gi, Some gw)
         \<and> dot g (T w) = Inr gi \<and> dot (T x) g = Inr gw
         \<and> shape gi = [n, k] \<and> shape gw = [k, m]
         \<and> (\<forall>i<n. \<forall>l<k. elt gi [i, l] = (\<Sum>j<m. elt g [i, j] * elt w [l, j]))
         \<and> (\<forall>l<k. \<forall>j<m. elt gw [l, j] = (\<Sum>i<n. elt x [i, l] * elt g [i, j]))"
proof -
  define gi where "gi = tabulate [n, k] (\<lambda>idx. \<Sum>j<m. elt g [idx ! 0, j] * elt (T w) [j, idx ! 1])"
  define gw where "gw = tabulate [k, m] (\<lambda>idx. \<Sum>i<n. elt (T x) [idx ! 0, i] * elt g [i, idx ! 1])"
  define h where "h = tabulate [m, k] (\<lambda>idx. \<Sum>i<n. elt (T g) [idx ! 0, i] * elt x [i, idx ! 1])"
  have d1: "dot g (T w) = Inr gi"
    unfolding gi_def using assms by (intro dot_matrix) simp_all
  have d2: "dot (T x) g = Inr gw"
    unfolding gw_def using assms by (intro dot_matrix) simp_all
  have d3: "dot (T g) x = Inr h"
    unfolding h_def using assms by (intro dot_matrix) simp_all
  have egi: "elt gi [i, l] = (\<Sum>j<m. elt g [i, j] * elt w [l, j])" if "i < n" "l < k" for i l
    using that assms by (simp add: gi_def elt_tabulate elt_T2)
  have egw: "elt gw [l, j] = (\<Sum>i<n. elt x [i, l] * elt g [i, j])" if "l < k" "j < m" for l j
    using that assms by (simp add: gw_def elt_tabulate elt_T2)
  have eh: "elt h [j, l] = (\<Sum>i<n. elt g [i, j] * elt x [i, l])" if "l < k" "j < m" for l j
    using that assms by (simp add: h_def elt_tabulate elt_T2)
  have "T h = gw"
  proof (rule array_eqI)
    show "shape (T h) = shape gw" by (simp add: h_def gw_def)
  next
    fix idx assume "valid_idx (shape (T h)) idx"
    then obtain l j where idx: "idx = [l, j]" and lj: "l < k" "j < m"
      by (auto simp: h_def valid_idx2)
    have "elt (T h) [l, j] = elt h [j, l]"
      using lj by (intro elt_T2[of h m k]) (simp_all add: h_def)
    then show "elt (T h) idx = elt gw idx"
      using lj by (simp add: idx eh egw mult.commute)
  qed (simp_all add: gw_def)
  then have b: "Dot_backward [x, w] g = Inr (Some gi, Some gw)"
    by (simp add: Dot_backward_def d1 d3)
  have f: "Dot_forward [] x w
             = Inr ([x, w], tabulate [n, m] (\<lambda>idx. \<Sum>l<k. elt x [idx ! 0, l] * elt w [l, idx ! 1]))"
    using dot_matrix[OF assms(1,2)] by (simp add: Dot_forward_def save_for_backward_def)
  show ?thesis
    using f b d1 d2 egi egw by (auto simp: gi_def gw_def)
qed

theorem C2_dot_backward_witness:
  "\<exists>y gi gw.
     Dot_forward [] ex_x ex_w = Inr ([ex_x, ex_w], y) \<and> shape y = [1, 1]
     \<and> Dot_backward [ex_x, ex_w] ex_g = Inr (Some gi, Some gw)
     \<and> dot ex_g (T ex_w) = Inr gi \<and> dot (T ex_x) ex_g = Inr gw
     \<and> shape gi = [1, 2] \<and> shape gw = [2, 1]
     \<and> (\<forall>i<1. \<forall>l<2. elt gi [i, l] = (\<Sum>j<1. elt ex_g [i, j] * elt ex_w [l, j]))
     \<and> (\<forall>l<2. \<forall>j<1. elt gw [l, j] = (\<Sum>i<1. elt ex_x [i, l] * elt ex_g [i, j]))"
  by (rule C2_dot_backward) (simp_all add: ex_x_def ex_w_def ex_g_def)

lemma Dot_backward_example:
  "Dot_backward [ex_x, ex_w] ex_g
     = Inr (Some \<lparr>shape = [1, 2], data = [50, 70]\<rparr>, Some \<lparr>shape = [2, 1], data = [20, 30]\<rparr>)"
  by code_simp

section \<open>Facts about broadcasting\<close>

lemma broadcast_rev_same: "broadcast_rev s s = Inr s"
  by (induction s) auto

lemma broadcast_shapes_same [simp]: "broadcast_shapes s s = Inr s"
  by (simp add: broadcast_shapes_def broadcast_rev_same)

lemma broadcast_rev_Nil [simp]: "broadcast_rev xs [] = Inr xs"
  by (cases xs) auto

lemma broadcast_rev_one: "s \<noteq> [] \<Longrightarrow> broadcast_rev [1] s = Inr s \<and> broadcast_rev s [1] = Inr s"
  by (cases s) (auto simp: neq_Nil_conv)

lemma broadcast_shapes_one:
  "s \<noteq> [] \<Longrightarrow> broadcast_shapes [1] s = Inr s \<and> broadcast_shapes s [1] = Inr s"
  using broadcast_rev_one[of "rev s"] by (simp add: broadcast_shapes_def)

lemma bc_idx_same: "valid_idx s idx \<Longrightarrow> bc_idx s idx = idx"
proof -
  assume v: "valid_idx s idx"
  then have "map2 (\<lambda>d i. if d = 1 then 0 else i) s idx = idx"
    by (induction s idx rule: valid_idx.induct) auto
  then show ?thesis using valid_idx_length[OF v] by (simp add: bc_idx_def)
qed

lemma bc_idx_one: "idx \<noteq> [] \<Longrightarrow> bc_idx [1] idx = [0]"
proof -
  assume "idx \<noteq> []"
  then have "drop (length idx - 1) idx = [last idx]"
    by (induction idx) (auto simp: Suc_diff_le drop_Cons')
  then show ?thesis by (simp add: bc_idx_def)
qed

lemma elt_full_array: "valid_idx s idx \<Longrightarrow> elt (full_array s v) idx = v"
  by (simp add: full_array_def elt_tabulate)

section \<open>Sum: what is saved and what is returned\<close>

text \<open>
  Claim C7 as stated fails on the code in two ways. The forward pass saves the input array
  itself, not its shape: two inputs of the same shape and different elements leave
  different contexts. And for an input without axes (a 0-d array) the backward pass, given
  the single-element gradient of shape (1,), returns an array of shape (1,), not of the
  shape of the input.
\<close>

theorem C7_sum_saves_input_counterexample:
  "Sum_forward [] ex_v = Inr ([ex_v], \<lparr>shape = [1], data = [3]\<rparr>)
   \<and> Sum_forward [] ex_v' = Inr ([ex_v'], \<lparr>shape = [1], data = [3]\<rparr>)
   \<and> shape ex_v = shape ex_v' \<and> [ex_v] \<noteq> [ex_v']
   \<and> Sum_backward [ex_0d] ex_s = Inr (Some \<lparr>shape = [1], data = [7]\<rparr>)
   \<and> shape ex_0d \<noteq> [1]"
  by code_simp

text \<open>
  Claim C7, as the code has it. For every input the forward pass saves the input array and
  returns the sum of all its elements as an array of shape (1,). For an input with at least one axis and a
  single-element gradient of shape (1,) holding \<open>v\<close>, the backward pass returns an array
  of the shape of the input in which every element is \<open>v\<close>.
\<close>

theorem C7_sum_forward_backward:
  fixes x :: "('a::semiring_1) ndarray"
  shows "Sum_forward [] x = Inr ([x], \<lparr>shape = [1], data = [sum_list (data x)]\<rparr>)
       \<and> (shape x \<noteq> [] \<longrightarrow>
            (\<exists>r. Sum_backward [x] \<lparr>shape = [1], data = [v]\<rparr> = Inr (Some r)
              \<and> shape r = shape x \<and> wf_array r
              \<and> (\<forall>idx. valid_idx (shape x) idx \<longrightarrow> elt r idx = v)))"
proof (intro conjI impI)
  show "Sum_forward [] x = Inr ([x], \<lparr>shape = [1], data = [sum_list (data x)]\<rparr>)"
    by (simp add: Sum_forward_def save_for_backward_def sum_all_def)
next
  assume assms: "shape x \<noteq> []"
  let ?g = "\<lparr>shape = [1], data = [v]\<rparr>"
  let ?r = "tabulate (shape x)
              (\<lambda>idx. elt ?g (bc_idx [1] idx) * elt (ones_like x :: 'a ndarray) (bc_idx (shape x) idx))"
  have b: "Sum_backward [x] ?g = Inr (Some ?r)"
    using broadcast_shapes_one[OF assms]
    by (simp add: Sum_backward_def ewise2_def ones_like_def full_array_def)
  have "elt ?r idx = v" if "valid_idx (shape x) idx" for idx
  proof -
    from that assms have "idx \<noteq> []" by (cases idx) (auto simp: valid_idx_Nil neq_Nil_conv)
    then have "elt ?g (bc_idx [1] idx) = v" using bc_idx_one[of idx] by (simp add: elt_def)
    moreover have "elt (ones_like x :: 'a ndarray) (bc_idx (shape x) idx) = 1"
      using that by (simp add: bc_idx_same ones_like_def elt_full_array)
    ultimately show ?thesis using that by (simp add: elt_tabulate)
  qed
  with b show "\<exists>r. Sum_backward [x] \<lparr>shape = [1], data = [v]\<rparr> = Inr (Some r)
              \<and> shape r = shape x \<and> wf_array r
              \<and> (\<forall>idx. valid_idx (shape x) idx \<longrightarrow> elt r idx = v)"
    by auto
qed

theorem C7_sum_forward_backward_witness:
  "Sum_forward [] ex_v = Inr ([ex_v], \<lparr>shape = [1], data = [sum_list (data ex_v)]\<rparr>)
       \<and> (\<exists>r. Sum_backward [ex_v] \<lparr>shape = [1], data = [7]\<rparr> = Inr (Some r)
              \<and> shape r = shape ex_v \<and> wf_array r
              \<and> (\<forall>idx. valid_idx (shape ex_v) idx \<longrightarrow> elt r idx = 7))"
  using C7_sum_forward_backward[of ex_v 7] by (simp add: ex_v_def)

lemma Sum_backward_example:
  "Sum_backward [ex_v] ex_s = Inr (Some \<lparr>shape = [2], data = [7, 7]\<rparr>)"
  by code_simp

section \<open>Facts about elementwise operations on matrices\<close>

lemma ewise1_tabulate: "ewise1 f (tabulate s g) = tabulate s (\<lambda>idx. f (g idx))"
  by (simp add: ewise1_def tabulate_def)

lemma broadcast_shapes_col: "broadcast_shapes [m, n] [m, Suc 0] = Inr [m, n]"
  by (simp add: broadcast_shapes_def)

lemma bc_idx_col: "i < m \<Longrightarrow> bc_idx [m, Suc 0] [i, j] = [i, 0]"
  by (auto simp: bc_idx_def)

lemma bc_idx2: "i < m \<Longrightarrow> j < n \<Longrightarrow> bc_idx [m, n] [i, j] = [i, j]"
  by (simp add: bc_idx_same)

lemma infer_shape_col: "infer_shape m [-1, 1] = Inr [m, Suc 0]"
  by (simp add: infer_shape_def)

lemma reshape_col: "reshape (tabulate [m] f) [-1, 1] = Inr ((tabulate [m] f)\<lparr>shape := [m, Suc 0]\<rparr>)"
  by (simp add: reshape_def infer_shape_col tabulate_def)

lemma elt_col: "i < m \<Longrightarrow> elt ((tabulate [m] f)\<lparr>shape := [m, Suc 0]\<rparr>) [i, 0] = f [i]"
  using elt_tabulate[of "[m]" "[i]" f] by (simp add: elt_def tabulate_def)

lemma ewise2_col:
  "shape A = [m, n] \<Longrightarrow>
     ewise2 f A ((tabulate [m] c)\<lparr>shape := [m, Suc 0]\<rparr>)
       = Inr (tabulate [m, n] (\<lambda>idx. f (elt A idx) (c [idx ! 0])))"
proof -
  assume s: "shape A = [m, n]"
  have "tabulate [m, n] (\<lambda>idx. f (elt A (bc_idx [m, n] idx))
                                   (elt ((tabulate [m] c)\<lparr>shape := [m, Suc 0]\<rparr>) (bc_idx [m, Suc 0] idx)))
        = tabulate [m, n] (\<lambda>idx. f (elt A idx) (c [idx ! 0]))"
    by (rule tabulate_cong) (auto simp: valid_idx2 bc_idx_col bc_idx2 elt_col)
  then show ?thesis by (simp add: ewise2_def s broadcast_shapes_col)
qed

lemma ewise2_same:
  "shape A = s \<Longrightarrow> shape B = s \<Longrightarrow>
     ewise2 f A B = Inr (tabulate s (\<lambda>idx. f (elt A idx) (elt B idx)))"
proof -
  assume s: "shape A = s" "shape B = s"
  have "tabulate s (\<lambda>idx. f (elt A (bc_idx s idx)) (elt B (bc_idx s idx)))
        = tabulate s (\<lambda>idx. f (elt A idx) (elt B idx))"
    by (rule tabulate_cong) (simp add: bc_idx_same)
  then show ?thesis by (simp add: ewise2_def s)
qed

lemma fsum_axis1_matrix:
  "shape A = [m, n] \<Longrightarrow>
     fsum_axis1 rnd A = Inr (tabulate [m] (\<lambda>idx. fsum rnd (map (\<lambda>j. elt A [idx ! 0, j]) [0..<n])))"
  by (simp add: fsum_axis1_def)

lemma max_axis1_matrix:
  "shape A = [m, n] \<Longrightarrow> 0 < n \<Longrightarrow>
     max_axis1 A = Inr (tabulate [m] (\<lambda>idx. rowmax A n (idx ! 0)))"
  by (simp add: max_axis1_def rowmax_def)

section \<open>Facts about rounding\<close>

lemma exact_arith_apply: "exact_arith v = v"
  by (simp add: exact_arith_def)

lemma foldl_plus: "foldl (\<lambda>acc w. acc + w) (a::real) vs = a + sum_list vs"
  by (induction vs arbitrary: a) simp_all

lemma fsum_exact: "fsum exact_arith vs = sum_list vs"
  by (cases vs) (simp_all add: exact_arith_def foldl_plus)

lemma round_even_near:
  assumes "\<bar>y - of_int m\<bar> < 1 / 2"
  shows "round_even y = m"
proof -
  have r: "round y = m" using assms by (rule round_unique')
  have "frac y \<noteq> 1 / 2"
  proof
    assume h: "frac y = 1 / 2"
    then have y: "y = of_int \<lfloor>y\<rfloor> + 1 / 2" by (simp add: frac_def)
    have "\<bar>of_int \<lfloor>y\<rfloor> + 1 / 2 - of_int m\<bar> < (1 / 2 :: real)" using assms y by simp
    then have "- 1 < (of_int (\<lfloor>y\<rfloor> - m) :: real)" "(of_int (\<lfloor>y\<rfloor> - m) :: real) < 0"
      unfolding of_int_diff by linarith+
    then have "- 1 < \<lfloor>y\<rfloor> - m" "\<lfloor>y\<rfloor> - m < 0" by linarith+
    then show False by linarith
  qed
  with r show ?thesis by (simp add: round_even_def)
qed

lemma round_even_err: "\<bar>of_int (round_even y) - y\<bar> \<le> 1 / 2"
proof (cases "frac y = 1 / 2")
  case True
  then have "y = of_int \<lfloor>y\<rfloor> + 1 / 2" by (simp add: frac_def)
  then have "of_int \<lfloor>y\<rfloor> - y = - (1 / 2)" "of_int (\<lfloor>y\<rfloor> + 1) - y = 1 / 2" by simp_all
  with True show ?thesis by (auto simp: round_even_def)
next
  case False
  then show ?thesis using of_int_round_abs_le[of y] by (simp add: round_even_def)
qed

lemma floor_log2:
  assumes "2 powr of_int e \<le> x" and "x < 2 powr (of_int e + 1)"
  shows "\<lfloor>log 2 x\<rfloor> = e"
proof -
  have "0 < (2::real) powr of_int e" by simp
  with assms(1) have x: "0 < x" by linarith
  have "of_int e \<le> log 2 x" using assms(1) x by (simp add: powr_le_iff)
  moreover have "log 2 x < of_int e + 1" using assms(2) x by (simp add: less_powr_iff)
  ultimately show ?thesis by (simp add: floor_unique)
qed

lemma fl64_near:
  assumes "x \<noteq> 0" and "\<lfloor>log 2 \<bar>x\<bar>\<rfloor> = e" and "\<bar>x / ulp64 e - of_int m\<bar> < 1 / 2"
  shows "fl64 x = ulp64 e * of_int m"
  using assms round_even_near[OF assms(3)] by (simp add: fl64_def)

lemma fl64_0: "fl64 0 = 0"
  by (simp add: fl64_def)

lemma fl64_1: "fl64 1 = 1"
proof -
  have "fl64 1 = ulp64 0 * of_int (2 ^ 52)"
    by (rule fl64_near) (simp_all add: ulp64_def)
  then show ?thesis by (simp add: ulp64_def)
qed

lemma fl64_minus_1: "fl64 (- 1) = - 1"
proof -
  have "fl64 (- 1) = ulp64 0 * of_int (- (2 ^ 52))"
    by (rule fl64_near) (simp_all add: ulp64_def)
  then show ?thesis by (simp add: ulp64_def)
qed

lemma fl64_2: "fl64 2 = 2"
proof -
  have "\<lfloor>log 2 \<bar>2::real\<bar>\<rfloor> = 1" by simp
  then have "fl64 2 = ulp64 1 * of_int (2 ^ 52)"
    by (rule fl64_near[rotated]) (simp_all add: ulp64_def)
  then show ?thesis by (simp add: ulp64_def)
qed

text \<open>Between \<open>2 ^ 53\<close> and \<open>2 ^ 54\<close> the binary64 numbers are the even integers: a term below
  one is absorbed when it is added to \<open>10 ^ 16\<close>.\<close>

lemma fl64_absorb:
  assumes "0 \<le> L" and "L < 1"
  shows "fl64 (10 ^ 16 + L) = 10 ^ 16"
proof -
  have "\<lfloor>log 2 (10 ^ 16 + L)\<rfloor> = 53"
    using assms by (intro floor_log2) simp_all
  then have e: "\<lfloor>log 2 \<bar>10 ^ 16 + L\<bar>\<rfloor> = 53" using assms by simp
  have "fl64 (10 ^ 16 + L) = ulp64 53 * of_int (5 * 10 ^ 15)"
    using e by (rule fl64_near[rotated]) (use assms in \<open>simp_all add: ulp64_def\<close>)
  then show ?thesis by (simp add: ulp64_def)
qed

lemma ln_2_bounds: "1 / 2 \<le> ln (2::real)" "ln (2::real) \<le> 19 / 24"
proof -
  have "1 + - (1 / 2) \<le> exp (- (1 / 2 :: real))" by (rule exp_ge_add_one_self)
  then have "1 / 2 \<le> 1 / exp (1 / 2 :: real)" by (simp add: exp_minus inverse_eq_divide)
  then have "exp (1 / 2 :: real) \<le> 2" by (simp add: field_simps)
  then show "1 / 2 \<le> ln (2::real)" using ln_ge_iff[of 2 "1 / 2"] by simp
  have "ln (2::real) = ln (4 / 3 * (4 / 3) * (9 / 8))" by simp
  also have "\<dots> = ln (4 / 3 :: real) + ln (4 / 3) + ln (9 / 8)"
    by (simp only: ln_mult_pos)
  finally have e: "ln (2::real) = ln (1 + 1 / 3 :: real) + ln (1 + 1 / 3) + ln (1 + 1 / 8)"
    by simp
  have "ln (1 + 1 / 3 :: real) \<le> 1 / 3" "ln (1 + 1 / 8 :: real) \<le> 1 / 8"
    by (rule ln_add_one_self_le_self, simp)+
  with e show "ln (2::real) \<le> 19 / 24" by linarith
qed

lemma fl64_ln2: "0 < fl64 (ln 2) \<and> fl64 (ln 2) < 1"
proof -
  note b = ln_2_bounds
  have "\<lfloor>log 2 (ln 2)\<rfloor> = - 1"
    using b by (intro floor_log2) (simp_all add: powr_minus)
  then have e: "\<lfloor>log 2 \<bar>ln (2::real)\<bar>\<rfloor> = - 1" using b by simp
  define y where "y = ln (2::real) / ulp64 (- 1)"
  have u: "ulp64 (- 1) = 1 / 2 ^ 53" by (simp add: ulp64_def)
  have f: "fl64 (ln 2) = ulp64 (- 1) * of_int (round_even y)"
    using e b by (simp add: fl64_def y_def)
  have "\<bar>of_int (round_even y) - y\<bar> \<le> 1 / 2" by (rule round_even_err)
  then have "y - 1 / 2 \<le> of_int (round_even y)" "of_int (round_even y) \<le> y + 1 / 2" by linarith+
  moreover have "y = ln 2 * 2 ^ 53" by (simp add: y_def u)
  ultimately have "1 / 2 * 2 ^ 53 - 1 / 2 \<le> (of_int (round_even y) :: real)"
    "(of_int (round_even y) :: real) \<le> 19 / 24 * 2 ^ 53 + 1 / 2"
    using b by simp_all
  then show ?thesis by (simp add: f u field_simps)
qed

section \<open>LogSoftmax: the output and its gradient\<close>

lemma logsumexp_matrix:
  assumes "shape x = [m, n]" and "0 < n"
  shows "logsumexp rnd x = Inr (tabulate [m] (\<lambda>idx. lse_row rnd x n (idx ! 0)))"
proof -
  let ?c = "\<lambda>idx. rowmax x n (idx ! 0)"
  let ?d = "tabulate [m, n] (\<lambda>idx. rnd (elt x idx - ?c idx))"
  let ?e = "tabulate [m, n] (\<lambda>idx. rnd (exp (rnd (elt x idx - ?c idx))))"
  let ?S = "\<lambda>idx. fsum rnd (map (\<lambda>j. rnd (exp (rnd (elt x [idx ! 0, j] - ?c idx)))) [0..<n])"
  have s: "tabulate [m] (\<lambda>idx. fsum rnd (map (\<lambda>j. elt ?e [idx ! 0, j]) [0..<n])) = tabulate [m] ?S"
    by (rule tabulate_cong)
       (auto simp: valid_idx_Cons valid_idx_Nil elt_tabulate intro!: arg_cong[of _ _ "fsum rnd"])
  have 1: "max_axis1 x = Inr (tabulate [m] ?c)"
    using assms by (rule max_axis1_matrix)
  have 2: "ewise2 (\<lambda>a b. rnd (a - b)) x ((tabulate [m] ?c)\<lparr>shape := [m, Suc 0]\<rparr>) = Inr ?d"
    using ewise2_col[OF assms(1), of "\<lambda>a b. rnd (a - b)" ?c] by simp
  have 3: "fsum_axis1 rnd ?e = Inr (tabulate [m] ?S)"
    using fsum_axis1_matrix[of ?e m n rnd] s by simp
  have 4: "ewise2 (\<lambda>a b. rnd (a + b)) (tabulate [m] ?c) (tabulate [m] (\<lambda>idx. rnd (ln (?S idx))))
           = Inr (tabulate [m] (\<lambda>idx. lse_row rnd x n (idx ! 0)))"
    by (subst ewise2_same[of _ "[m]"])
       (auto intro!: tabulate_cong simp: elt_tabulate lse_row_def)
  show ?thesis
    unfolding logsumexp_def by (simp add: 1 reshape_col 2 ewise1_tabulate 3 4)
qed

lemma LogSoftmax_forward_matrix:
  assumes "shape x = [m, n]" and "0 < n"
  shows "LogSoftmax_forward rnd ctx x
           = Inr (ctx @ [tabulate [m, n] (\<lambda>idx. rnd (elt x idx - lse_row rnd x n (idx ! 0)))],
                  tabulate [m, n] (\<lambda>idx. rnd (elt x idx - lse_row rnd x n (idx ! 0))))"
  unfolding LogSoftmax_forward_def
  by (simp add: logsumexp_matrix[OF assms] reshape_col
                ewise2_col[OF assms(1), of "\<lambda>a b. rnd (a - b)"] save_for_backward_def)

lemma LogSoftmax_backward_matrix:
  assumes "shape out = [m, n]" and "wf_array out" and "shape g = [m, n]"
  shows "LogSoftmax_backward rnd [out] g
           = Inr (Some (tabulate [m, n]
                    (\<lambda>idx. rnd (elt g idx - rnd (rnd (exp (elt out idx))
                              * fsum rnd (map (\<lambda>k. elt g [idx ! 0, k]) [0..<n]))))))"
proof -
  let ?s = "\<lambda>idx. fsum rnd (map (\<lambda>k. elt g [idx ! 0, k]) [0..<n])"
  let ?p = "tabulate [m, n] (\<lambda>idx. rnd (rnd (exp (elt out idx)) * ?s idx))"
  have e: "ewise1 (\<lambda>a. rnd (exp a)) out = tabulate [m, n] (\<lambda>idx. rnd (exp (elt out idx)))"
    using tabulate_elt[OF assms(2)]
      ewise1_tabulate[of "\<lambda>a. rnd (exp a)" "shape out" "elt out"] assms(1)
    by simp
  have 1: "ewise2 (\<lambda>a b. rnd (a * b)) (tabulate [m, n] (\<lambda>idx. rnd (exp (elt out idx))))
             ((tabulate [m] ?s)\<lparr>shape := [m, Suc 0]\<rparr>) = Inr ?p"
    by (subst ewise2_col[of _ m n]) (auto intro!: tabulate_cong simp: elt_tabulate)
  have 2: "ewise2 (\<lambda>a b. rnd (a - b)) g ?p
           = Inr (tabulate [m, n] (\<lambda>idx. rnd (elt g idx - rnd (rnd (exp (elt out idx)) * ?s idx))))"
    using assms(3)
    by (subst ewise2_same[of _ "[m, n]"]) (auto intro!: tabulate_cong simp: elt_tabulate)
  show ?thesis
    unfolding LogSoftmax_backward_def
    by (simp add: fsum_axis1_matrix[OF assms(3)] reshape_col e 1 2)
qed

text \<open>Without rounding the forward pass is the row-wise log-softmax.\<close>

lemma sum_exp_pos: "0 < (n::nat) \<Longrightarrow> 0 < (\<Sum>j<n. exp (f j :: real))"
  by (rule sum_pos) auto

lemma logsumexp_shift:
  assumes "0 < (n::nat)"
  shows "c + ln (\<Sum>j<n. exp (f j - c)) = ln (\<Sum>j<n. exp (f j :: real))"
proof -
  have "(\<Sum>j<n. exp (f j - c)) = (\<Sum>j<n. exp (f j)) * exp (- c)"
    by (simp add: sum_distrib_right exp_diff exp_minus divide_inverse)
  then have "ln (\<Sum>j<n. exp (f j - c)) = ln (\<Sum>j<n. exp (f j)) + ln (exp (- c))"
    using sum_exp_pos[OF assms, of f] by (simp add: ln_mult)
  then show ?thesis by simp
qed

lemma lse_row_exact:
  "0 < n \<Longrightarrow> lse_row exact_arith x n i = ln (\<Sum>j<n. exp (elt x [i, j]))"
  by (simp add: lse_row_def fsum_exact sum_list_upt exact_arith_apply logsumexp_shift)

lemma LogSoftmax_forward_spec:
  assumes "shape x = [m, n]" and "0 < n"
  shows "\<exists>out. LogSoftmax_forward exact_arith [] x = Inr ([out], out) \<and> shape out = [m, n]
           \<and> wf_array out
           \<and> (\<forall>i<m. \<forall>j<n. elt out [i, j] = log_softmax_spec n (\<lambda>l. elt x [i, l]) j)"
  using LogSoftmax_forward_matrix[OF assms, of exact_arith "[]"] assms(2)
  by (auto simp: elt_tabulate log_softmax_spec_def lse_row_exact exact_arith_apply)


text \<open>In binary64 arithmetic, on the row \<open>(10 ^ 16, 10 ^ 16)\<close>: the row maximum is
  \<open>10 ^ 16\<close>, both differences are 0, the sum of their exponentials is 2, and adding the
  rounded \<open>ln 2\<close> to \<open>10 ^ 16\<close> gives \<open>10 ^ 16\<close> again.\<close>

lemma upt_2: "[0..<2] = [0, Suc 0]"
  by (simp add: upt_rec numeral_2_eq_2)

lemma elt_ex_big: "elt ex_big [0, 0] = 10 ^ 16" "elt ex_big [0, Suc 0] = 10 ^ 16"
  by (simp_all add: ex_big_def elt_def)

lemma elt_ex_bg: "elt ex_bg [0, 0] = 1" "elt ex_bg [0, Suc 0] = 0"
  by (simp_all add: ex_bg_def elt_def)

lemma rowmax_ex_big: "rowmax ex_big 2 0 = 10 ^ 16"
  by (simp add: rowmax_def upt_2 max_list_def elt_ex_big)

lemma lse_row_ex_big: "lse_row fl64 ex_big 2 0 = 10 ^ 16"
proof -
  have "lse_row fl64 ex_big 2 0 = fl64 (10 ^ 16 + fl64 (ln 2))"
    by (simp add: lse_row_def rowmax_ex_big upt_2 elt_ex_big fl64_0 fl64_1 fl64_2)
  also have "\<dots> = 10 ^ 16"
    using fl64_ln2 by (intro fl64_absorb) simp_all
  finally show ?thesis .
qed

lemma LogSoftmax_forward_ex_big:
  "LogSoftmax_forward fl64 [] ex_big
     = Inr ([\<lparr>shape = [1, 2], data = [0, 0]\<rparr>], \<lparr>shape = [1, 2], data = [0, 0]\<rparr>)"
proof -
  have "tabulate [1, 2] (\<lambda>idx. fl64 (elt ex_big idx - lse_row fl64 ex_big 2 (idx ! 0)))
          = \<lparr>shape = [1, 2], data = [0, 0 :: real]\<rparr>"
    by (simp add: tabulate_def upt_2 elt_ex_big lse_row_ex_big fl64_0)
  then show ?thesis
    using LogSoftmax_forward_matrix[of ex_big 1 2 fl64 "[]"] by (simp add: ex_big_def)
qed

lemma LogSoftmax_backward_ex_big:
  "LogSoftmax_backward fl64 [\<lparr>shape = [1, 2], data = [0, 0]\<rparr>] ex_bg
     = Inr (Some \<lparr>shape = [1, 2], data = [0, - 1]\<rparr>)"
proof -
  let ?o = "\<lparr>shape = [1, 2], data = [0, 0 :: real]\<rparr>"
  have w: "wf_array ?o" by (simp add: wf_array_def)
  have e: "elt ?o [0, 0] = 0" "elt ?o [0, Suc 0] = 0"
    "elt ex_bg [0, 0] = 1" "elt ex_bg [0, Suc 0] = 0"
    by (simp_all add: elt_def ex_bg_def)
  have "tabulate [1, 2]
          (\<lambda>idx. fl64 (elt ex_bg idx - fl64 (fl64 (exp (elt ?o idx))
                    * fsum fl64 (map (\<lambda>k. elt ex_bg [idx ! 0, k]) [0..<2]))))
          = \<lparr>shape = [1, 2], data = [0, - 1]\<rparr>"
    using e by (simp add: tabulate_def upt_2 fl64_0 fl64_1 fl64_minus_1)
  then show ?thesis
    using LogSoftmax_backward_matrix[of ?o 1 2 ex_bg fl64] w by (simp add: ex_bg_def)
qed




lemma log_softmax_spec_deriv:
  assumes "j < n"
  shows "((\<lambda>t. log_softmax_spec n (v(j := t)) k) has_real_derivative
            ((if k = j then 1 else 0) - exp (log_softmax_spec n v j))) (at (v j))"
proof -
  define C where "C = (\<Sum>l\<in>{..<n} - {j}. exp (v l))"
  have C: "0 \<le> C" unfolding C_def by (rule sum_nonneg) simp
  have S: "(\<Sum>l<n. exp ((v(j := t)) l)) = exp t + C" for t
  proof -
    have "(\<Sum>l<n. exp ((v(j := t)) l))
            = exp ((v(j := t)) j) + (\<Sum>l\<in>{..<n} - {j}. exp ((v(j := t)) l))"
      using assms by (intro sum.remove) auto
    also have "(\<Sum>l\<in>{..<n} - {j}. exp ((v(j := t)) l)) = C"
      unfolding C_def by (rule sum.cong) auto
    finally show ?thesis by simp
  qed
  have S0: "(\<Sum>l<n. exp (v l)) = exp (v j) + C"
    using S[of "v j"] by simp
  have pos: "0 < exp t + C" for t
    using C exp_gt_zero[of t] by linarith
  have eq: "(\<lambda>t. log_softmax_spec n (v(j := t)) k)
              = (\<lambda>t. (if k = j then t else v k) - ln (exp t + C))"
    unfolding log_softmax_spec_def S by (auto simp: fun_eq_iff)
  have d: "((\<lambda>t. (if k = j then t else v k) - ln (exp t + C)) has_real_derivative
             ((if k = j then 1 else 0) - exp (v j) / (exp (v j) + C))) (at (v j))"
    using pos[of "v j"] by (auto intro!: derivative_eq_intros simp: field_simps)
  have "exp (log_softmax_spec n v j) = exp (v j) / (exp (v j) + C)"
    using pos[of "v j"] by (simp add: log_softmax_spec_def S0 exp_diff)
  with d eq show ?thesis by simp
qed

lemma log_softmax_spec_vjp:
  assumes "j < n"
  shows "(\<Sum>k<n. g k * ((if k = j then 1 else 0) - exp (log_softmax_spec n v j)))
           = g j - exp (log_softmax_spec n v j) * (\<Sum>k<n. g k :: real)"
proof -
  have "(\<Sum>k<n. g k * ((if k = j then 1 else 0) - exp (log_softmax_spec n v j)))
          = (\<Sum>k<n. g k * (if k = j then 1 else 0))
            - (\<Sum>k<n. g k * exp (log_softmax_spec n v j))"
    by (simp add: right_diff_distrib sum_subtractf)
  also have "(\<Sum>k<n. g k * (if k = j then 1 else 0)) = g j"
    using assms by (simp add: if_distrib[of "\<lambda>z. _ * z"] sum.delta cong: if_cong)
  also have "(\<Sum>k<n. g k * exp (log_softmax_spec n v j))
               = exp (log_softmax_spec n v j) * (\<Sum>k<n. g k)"
    by (simp add: sum_distrib_right[symmetric] mult.commute)
  finally show ?thesis .
qed

lemma log_softmax_spec_ex_big: "log_softmax_spec 2 (\<lambda>l. elt ex_big [0, l]) 0 = - ln 2"
proof -
  have "ln (2 * exp (10 ^ 16) :: real) = ln 2 + 10 ^ 16"
    by (simp add: ln_mult)
  then show ?thesis
    unfolding log_softmax_spec_def
    by (simp add: lessThan_Suc numeral_2_eq_2 elt_ex_big)
qed

text \<open>
  Claim C4, as stated, fails in binary64 arithmetic. On the input \<open>((10 ^ 16, 10 ^ 16))\<close>
  the saved output is \<open>((0, 0))\<close>, and for the gradient \<open>((1, 0))\<close> the backward pass
  returns \<open>((0, - 1))\<close>. The log-softmax of this row is \<open>- ln 2\<close> in both entries, and the
  product of the gradient with its Jacobian has first entry \<open>1 / 2\<close>.
\<close>

theorem C4_logsoftmax_float_counterexample:
  "LogSoftmax_forward fl64 [] ex_big
     = Inr ([\<lparr>shape = [1, 2], data = [0, 0]\<rparr>], \<lparr>shape = [1, 2], data = [0, 0]\<rparr>)
   \<and> LogSoftmax_backward fl64 [\<lparr>shape = [1, 2], data = [0, 0]\<rparr>] ex_bg
       = Inr (Some \<lparr>shape = [1, 2], data = [0, - 1]\<rparr>)
   \<and> log_softmax_spec 2 (\<lambda>l. elt ex_big [0, l]) 0 = - ln 2
   \<and> (\<Sum>k<2. elt ex_bg [0, k]
          * ((if k = 0 then 1 else 0) - exp (log_softmax_spec 2 (\<lambda>l. elt ex_big [0, l]) 0)))
       = 1 / 2"
proof -
  have "(\<Sum>k<2. elt ex_bg [0, k]
          * ((if k = 0 then 1 else 0) - exp (log_softmax_spec 2 (\<lambda>l. elt ex_big [0, l]) 0)))
        = elt ex_bg [0, 0] - exp (log_softmax_spec 2 (\<lambda>l. elt ex_big [0, l]) 0)
            * (\<Sum>k<2. elt ex_bg [0, k])"
    by (rule log_softmax_spec_vjp) simp
  also have "(\<Sum>k<2. elt ex_bg [0, k]) = 1"
    by (simp add: lessThan_Suc numeral_2_eq_2 elt_ex_bg)
  also have "elt ex_bg [0, 0] - exp (log_softmax_spec 2 (\<lambda>l. elt ex_big [0, l]) 0) * 1 = 1 / 2"
    by (simp add: log_softmax_spec_ex_big exp_minus elt_ex_bg)
  finally show ?thesis
    using LogSoftmax_forward_ex_big LogSoftmax_backward_ex_big log_softmax_spec_ex_big
    by simp
qed

text \<open>
  Claim C4, amended. Let \<open>x\<close> be a matrix with at least one column and \<open>g\<close> a gradient of the
  same shape. Whatever the rounding, the forward pass saves its output and nothing else, and
  the backward pass returns \<open>g - exp(out) * rowsum(g)\<close>, computed operation by operation
  from the saved output alone. Without rounding the saved output is the row-wise log-softmax
  of \<open>x\<close>, and what the backward pass returns is the product of \<open>g\<close> with the Jacobian of the
  row-wise log-softmax at \<open>x\<close>: entry \<open>(i, j)\<close> is the sum over \<open>k\<close> of \<open>g[i, k]\<close> times the
  partial derivative of output \<open>(i, k)\<close> with respect to input \<open>(i, j)\<close>.
\<close>

theorem C4_logsoftmax_backward:
  assumes "shape x = [m, n]" and "0 < n" and "shape g = [m, n]"
  shows "(\<exists>out r.
           LogSoftmax_forward rnd [] x = Inr ([out], out) \<and> shape out = [m, n]
         \<and> LogSoftmax_backward rnd [out] g = Inr (Some r) \<and> shape r = [m, n]
         \<and> (\<forall>i<m. \<forall>j<n.
               elt r [i, j] = rnd (elt g [i, j] - rnd (rnd (exp (elt out [i, j]))
                                     * fsum rnd (map (\<lambda>k. elt g [i, k]) [0..<n])))))
       \<and> (\<exists>out r.
           LogSoftmax_forward exact_arith [] x = Inr ([out], out) \<and> shape out = [m, n]
         \<and> (\<forall>i<m. \<forall>j<n. elt out [i, j] = log_softmax_spec n (\<lambda>l. elt x [i, l]) j)
         \<and> LogSoftmax_backward exact_arith [out] g = Inr (Some r) \<and> shape r = [m, n]
         \<and> (\<forall>i<m. \<forall>j<n.
               elt r [i, j] = elt g [i, j] - exp (elt out [i, j]) * (\<Sum>k<n. elt g [i, k]))
         \<and> (\<forall>i<m. \<forall>j<n. \<exists>J.
               (\<forall>k<n. ((\<lambda>t. log_softmax_spec n ((\<lambda>l. elt x [i, l])(j := t)) k)
                          has_real_derivative J k) (at (elt x [i, j])))
               \<and> elt r [i, j] = (\<Sum>k<n. elt g [i, k] * J k)))"
proof (rule conjI)
  define out where
    "out = tabulate [m, n] (\<lambda>idx. rnd (elt x idx - lse_row rnd x n (idx ! 0)))"
  define r where "r = tabulate [m, n]
      (\<lambda>idx. rnd (elt g idx - rnd (rnd (exp (elt out idx))
                     * fsum rnd (map (\<lambda>k. elt g [idx ! 0, k]) [0..<n]))))"
  have f: "LogSoftmax_forward rnd [] x = Inr ([out], out)"
    unfolding out_def using LogSoftmax_forward_matrix[OF assms(1,2), of rnd "[]"] by simp
  have so: "shape out = [m, n]" and w: "wf_array out" by (simp_all add: out_def)
  have b: "LogSoftmax_backward rnd [out] g = Inr (Some r)"
    unfolding r_def using so w assms(3) by (rule LogSoftmax_backward_matrix)
  have "elt r [i, j] = rnd (elt g [i, j] - rnd (rnd (exp (elt out [i, j]))
                              * fsum rnd (map (\<lambda>k. elt g [i, k]) [0..<n])))"
    if "i < m" "j < n" for i j
    using that by (simp add: r_def elt_tabulate)
  with f so b show "\<exists>out r.
           LogSoftmax_forward rnd [] x = Inr ([out], out) \<and> shape out = [m, n]
         \<and> LogSoftmax_backward rnd [out] g = Inr (Some r) \<and> shape r = [m, n]
         \<and> (\<forall>i<m. \<forall>j<n.
               elt r [i, j] = rnd (elt g [i, j] - rnd (rnd (exp (elt out [i, j]))
                                     * fsum rnd (map (\<lambda>k. elt g [i, k]) [0..<n]))))"
    by (intro exI[of _ out] exI[of _ r]) (simp add: r_def)
next
  from LogSoftmax_forward_spec[OF assms(1,2)] obtain out where
    f: "LogSoftmax_forward exact_arith [] x = Inr ([out], out)" and so: "shape out = [m, n]"
    and w: "wf_array out"
    and e: "\<forall>i<m. \<forall>j<n. elt out [i, j] = log_softmax_spec n (\<lambda>l. elt x [i, l]) j"
    by blast
  define r where "r = tabulate [m, n]
      (\<lambda>idx. elt g idx - exp (elt out idx) * (\<Sum>k<n. elt g [idx ! 0, k]))"
  have "LogSoftmax_backward exact_arith [out] g
          = Inr (Some (tabulate [m, n]
                    (\<lambda>idx. exact_arith (elt g idx - exact_arith (exact_arith (exp (elt out idx))
                              * fsum exact_arith (map (\<lambda>k. elt g [idx ! 0, k]) [0..<n]))))))"
    using so w assms(3) by (rule LogSoftmax_backward_matrix)
  then have b: "LogSoftmax_backward exact_arith [out] g = Inr (Some r)"
    by (simp add: r_def exact_arith_apply fsum_exact sum_list_upt)
  have er: "elt r [i, j] = elt g [i, j] - exp (elt out [i, j]) * (\<Sum>k<n. elt g [i, k])"
    if "i < m" "j < n" for i j
    using that by (simp add: r_def elt_tabulate)
  have jac: "\<exists>J. (\<forall>k<n. ((\<lambda>t. log_softmax_spec n ((\<lambda>l. elt x [i, l])(j := t)) k)
                          has_real_derivative J k) (at (elt x [i, j])))
               \<and> elt r [i, j] = (\<Sum>k<n. elt g [i, k] * J k)"
    if "i < m" "j < n" for i j
  proof -
    let ?v = "\<lambda>l. elt x [i, l]"
    let ?J = "\<lambda>k. (if k = j then 1 else 0) - exp (log_softmax_spec n ?v j)"
    have "((\<lambda>t. log_softmax_spec n (?v(j := t)) k) has_real_derivative ?J k) (at (elt x [i, j]))"
      for k
      using log_softmax_spec_deriv[OF that(2), of ?v k] by simp
    moreover have "(\<Sum>k<n. elt g [i, k] * ?J k)
                     = elt g [i, j] - exp (elt out [i, j]) * (\<Sum>k<n. elt g [i, k])"
      using log_softmax_spec_vjp[OF that(2), of "\<lambda>k. elt g [i, k]" ?v] e that by simp
    ultimately show ?thesis using er[OF that] by (intro exI[of _ ?J]) simp
  qed
  show "\<exists>out r.
           LogSoftmax_forward exact_arith [] x = Inr ([out], out) \<and> shape out = [m, n]
         \<and> (\<forall>i<m. \<forall>j<n. elt out [i, j] = log_softmax_spec n (\<lambda>l. elt x [i, l]) j)
         \<and> LogSoftmax_backward exact_arith [out] g = Inr (Some r) \<and> shape r = [m, n]
         \<and> (\<forall>i<m. \<forall>j<n.
               elt r [i, j] = elt g [i, j] - exp (elt out [i, j]) * (\<Sum>k<n. elt g [i, k]))
         \<and> (\<forall>i<m. \<forall>j<n. \<exists>J.
               (\<forall>k<n. ((\<lambda>t. log_softmax_spec n ((\<lambda>l. elt x [i, l])(j := t)) k)
                          has_real_derivative J k) (at (elt x [i, j])))
               \<and> elt r [i, j] = (\<Sum>k<n. elt g [i, k] * J k))"
    using f so e b er jac by (intro exI[of _ out] exI[of _ r]) (simp add: r_def)
qed

theorem C4_logsoftmax_backward_witness:
  "(\<exists>out r.
           LogSoftmax_forward fl64 [] ex_r = Inr ([out], out) \<and> shape out = [2, 2]
         \<and> LogSoftmax_backward fl64 [out] ex_rg = Inr (Some r) \<and> shape r = [2, 2]
         \<and> (\<forall>i<2. \<forall>j<2.
               elt r [i, j] = fl64 (elt ex_rg [i, j] - fl64 (fl64 (exp (elt out [i, j]))
                                      * fsum fl64 (map (\<lambda>k. elt ex_rg [i, k]) [0..<2])))))
       \<and> (\<exists>out r.
           LogSoftmax_forward exact_arith [] ex_r = Inr ([out], out) \<and> shape out = [2, 2]
         \<and> (\<forall>i<2. \<forall>j<2. elt out [i, j] = log_softmax_spec 2 (\<lambda>l. elt ex_r [i, l]) j)
         \<and> LogSoftmax_backward exact_arith [out] ex_rg = Inr (Some r) \<and> shape r = [2, 2]
         \<and> (\<forall>i<2. \<forall>j<2.
               elt r [i, j] = elt ex_rg [i, j] - exp (elt out [i, j]) * (\<Sum>k<2. elt ex_rg [i, k]))
         \<and> (\<forall>i<2. \<forall>j<2. \<exists>J.
               (\<forall>k<2. ((\<lambda>t. log_softmax_spec 2 ((\<lambda>l. elt ex_r [i, l])(j := t)) k)
                          has_real_derivative J k) (at (elt ex_r [i, j])))
               \<and> elt r [i, j] = (\<Sum>k<2. elt ex_rg [i, k] * J k)))"
  by (rule C4_logsoftmax_backward) (simp_all add: ex_r_def ex_rg_def)

text \<open>Without rounding, on the row \<open>(0, 0)\<close> with the gradient \<open>(1, 0)\<close>: the output is
  \<open>- ln 2\<close> in both entries and the gradient of the input is \<open>(1 / 2, - 1 / 2)\<close>.\<close>

lemma LogSoftmax_forward_example:
  "LogSoftmax_forward exact_arith [] ex_r0
     = Inr ([\<lparr>shape = [1, 2], data = [- ln 2, - ln 2]\<rparr>],
            \<lparr>shape = [1, 2], data = [- ln 2, - ln 2]\<rparr>)"
proof -
  have e: "elt ex_r0 [0, 0] = 0" "elt ex_r0 [0, Suc 0] = 0"
    by (simp_all add: ex_r0_def elt_def)
  have "lse_row exact_arith ex_r0 2 0 = ln 2"
    by (simp add: lse_row_exact lessThan_Suc numeral_2_eq_2 e)
  then have "tabulate [1, 2]
               (\<lambda>idx. exact_arith (elt ex_r0 idx - lse_row exact_arith ex_r0 2 (idx ! 0)))
          = \<lparr>shape = [1, 2], data = [- ln 2, - ln 2]\<rparr>"
    by (simp add: tabulate_def upt_2 e exact_arith_apply)
  then show ?thesis
    using LogSoftmax_forward_matrix[of ex_r0 1 2 exact_arith "[]"] by (simp add: ex_r0_def)
qed

lemma LogSoftmax_backward_example:
  "LogSoftmax_backward exact_arith [\<lparr>shape = [1, 2], data = [- ln 2, - ln 2]\<rparr>] ex_bg
     = Inr (Some \<lparr>shape = [1, 2], data = [1 / 2, - 1 / 2]\<rparr>)"
proof -
  let ?o = "\<lparr>shape = [1, 2], data = [- ln 2, - ln (2 :: real)]\<rparr>"
  have w: "wf_array ?o" by (simp add: wf_array_def)
  have e: "elt ?o [0, 0] = - ln 2" "elt ?o [0, Suc 0] = - ln 2"
    "elt ex_bg [0, 0] = 1" "elt ex_bg [0, Suc 0] = 0"
    by (simp_all add: elt_def ex_bg_def)
  have "tabulate [1, 2]
          (\<lambda>idx. exact_arith (elt ex_bg idx - exact_arith (exact_arith (exp (elt ?o idx))
                    * fsum exact_arith (map (\<lambda>k. elt ex_bg [idx ! 0, k]) [0..<2]))))
          = \<lparr>shape = [1, 2], data = [1 / 2, - 1 / 2]\<rparr>"
    using e by (simp add: tabulate_def upt_2 exact_arith_apply exp_minus)
  then show ?thesis
    using LogSoftmax_backward_matrix[of ?o 1 2 ex_bg exact_arith] w by (simp add: ex_bg_def)
qed

section \<open>Facts about indexing\<close>

lemma slice_len_all [simp]: "slice_len n 0 None (Suc 0) = n"
  by (simp add: slice_len_def slice_stop_def)

lemma slice_len_stride2: "Y < 2 \<Longrightarrow> slice_len h Y None 2 = (h + 1 - Y) div 2"
  by (auto simp: slice_len_def slice_stop_def min_def)

lemma index_shape_pool:
  "index_shape (pool_items Y X) [bs, ch, h, w]
     = Inr [bs, ch, slice_len h Y None 2, slice_len w X None 2]"
  by (simp add: pool_items_def slice_all_def)

lemma getitem_pool:
  assumes "shape x = [bs, ch, h, w]" and "Y < 2" and "X < 2"
  shows "getitem x (pool_items Y X)
           = Inr (tabulate [bs, ch, (h + 1 - Y) div 2, (w + 1 - X) div 2]
                    (\<lambda>idx. elt x [idx ! 0, idx ! 1, Y + idx ! 2 * 2, X + idx ! 3 * 2]))"
proof -
  have "tabulate [bs, ch, (h + 1 - Y) div 2, (w + 1 - X) div 2]
          (\<lambda>idx. elt x (index_src (pool_items Y X) [bs, ch, h, w] idx))
        = tabulate [bs, ch, (h + 1 - Y) div 2, (w + 1 - X) div 2]
          (\<lambda>idx. elt x [idx ! 0, idx ! 1, Y + idx ! 2 * 2, X + idx ! 3 * 2])"
  proof (rule tabulate_cong)
    fix idx assume "valid_idx [bs, ch, (h + 1 - Y) div 2, (w + 1 - X) div 2] idx"
    then obtain b c i j where idx: "idx = [b, c, i, j]"
      and ij: "i < (h + 1 - Y) div 2" "j < (w + 1 - X) div 2"
      by (auto simp: valid_idx4)
    from ij have "min Y h = Y" "min X w = X" by (auto simp: min_def)
    then show "elt x (index_src (pool_items Y X) [bs, ch, h, w] idx)
               = elt x [idx ! 0, idx ! 1, Y + idx ! 2 * 2, X + idx ! 3 * 2]"
      by (simp add: idx pool_items_def slice_all_def)
  qed
  then show ?thesis
    using assms by (simp add: getitem_def index_shape_pool slice_len_stride2)
qed

text \<open>The four slices that \<^verbatim>\<open>MaxPool2x2.forward\<close> stacks, in the order of the loop.\<close>

lemma pool_stack_4d:
  assumes "shape x = [bs, ch, h, w]"
  shows "pool_stack x = Inr (map (\<lambda>(Y, X). newaxis0 (tabulate [bs, ch, (h + 1 - Y) div 2, (w + 1 - X) div 2]
                    (\<lambda>idx. elt x [idx ! 0, idx ! 1, Y + idx ! 2 * 2, X + idx ! 3 * 2])))
                 [(0, 0), (0, 1), (1, 0), (1, 1)])"
  unfolding pool_stack_def upt_2
  by (simp add: getitem_pool[OF assms])


lemma upt_4: "[0..<4] = [0, Suc 0, 2, 3]"
  by (simp add: upt_rec)

lemma concatenate0_stack4:
  "concatenate0 [newaxis0 (tabulate s f0), newaxis0 (tabulate s f1),
                 newaxis0 (tabulate s f2), newaxis0 (tabulate s f3)]
     = Inr (tabulate (4 # s) (\<lambda>idx. ([f0, f1, f2, f3] ! hd idx) (tl idx)))"
  by (simp add: concatenate0_def newaxis0_def tabulate_def upt_4 comp_def)

lemma concatenate0_mismatch:
  "shape A \<noteq> [] \<Longrightarrow> B \<in> set Bs \<Longrightarrow> tl (shape B) \<noteq> tl (shape A)
     \<Longrightarrow> concatenate0 (A # Bs) = Inl ValueError"
  by (auto simp: concatenate0_def)

lemma argmax0_stack4:
  "argmax0 (tabulate (4 # s) (\<lambda>idx. ([f0, f1, f2, f3] ! hd idx) (tl idx)))
     = Inr (tabulate s (\<lambda>idx. argmax_list [f0 idx, f1 idx, f2 idx, f3 idx]))"
proof -
  let ?S = "tabulate (4 # s) (\<lambda>idx. ([f0, f1, f2, f3] ! hd idx) (tl idx))"
  have "tabulate s (\<lambda>idx. argmax_list (map (\<lambda>k. elt ?S (k # idx)) [0..<4]))
        = tabulate s (\<lambda>idx. argmax_list [f0 idx, f1 idx, f2 idx, f3 idx])"
    by (rule tabulate_cong) (simp add: upt_4 elt_tabulate)
  then show ?thesis by (simp add: argmax0_def)
qed

lemma max0_stack4:
  "max0 (tabulate (4 # s) (\<lambda>idx. ([f0, f1, f2, f3] ! hd idx) (tl idx)))
     = Inr (tabulate s (\<lambda>idx. max_list [f0 idx, f1 idx, f2 idx, f3 idx]))"
proof -
  let ?S = "tabulate (4 # s) (\<lambda>idx. ([f0, f1, f2, f3] ! hd idx) (tl idx))"
  have "tabulate s (\<lambda>idx. max_list (map (\<lambda>k. elt ?S (k # idx)) [0..<4]))
        = tabulate s (\<lambda>idx. max_list [f0 idx, f1 idx, f2 idx, f3 idx])"
    by (rule tabulate_cong) (simp add: upt_4 elt_tabulate)
  then show ?thesis by (simp add: max0_def)
qed

section \<open>MaxPool2x2: the forward pass\<close>

lemma MaxPool2x2_forward_even:
  assumes "shape x = [bs, ch, 2 * m, 2 * n]"
  shows "MaxPool2x2_forward ctx x
           = Inr (ctx @ [tabulate [bs, ch, m, n]
                           (\<lambda>idx. argmax_list (pool_cands x (idx ! 0) (idx ! 1) (idx ! 2) (idx ! 3)))],
                  tabulate [bs, ch, m, n]
                    (\<lambda>idx. max_list (pool_cands x (idx ! 0) (idx ! 1) (idx ! 2) (idx ! 3))))"
  unfolding MaxPool2x2_forward_def
  by (simp add: pool_stack_4d[OF assms] concatenate0_stack4 argmax0_stack4 max0_stack4
                save_for_backward_def pool_cands_def add.commute mult.commute)

lemma MaxPool2x2_forward_odd:
  assumes "shape x = [bs, ch, h, w]" and "odd h \<or> odd w"
  shows "\<exists>stack. pool_stack x = Inr stack \<and> concatenate0 stack = Inl ValueError
           \<and> MaxPool2x2_forward ctx x = Inl ValueError"
proof -
  from assms(2) have "(h + 1) div 2 \<noteq> h div 2 \<or> (w + 1) div 2 \<noteq> w div 2"
    by (auto elim!: oddE)
  then have "concatenate0 (map (\<lambda>(Y, X). newaxis0 (tabulate [bs, ch, (h + 1 - Y) div 2, (w + 1 - X) div 2]
                    (\<lambda>idx. elt x [idx ! 0, idx ! 1, Y + idx ! 2 * 2, X + idx ! 3 * 2])))
                 [(0, 0), (0, 1), (1, 0), (1, 1)]) = Inl ValueError"
    by (auto simp: concatenate0_def newaxis0_def)
  then show ?thesis
    by (simp add: MaxPool2x2_forward_def pool_stack_4d[OF assms(1)])
qed


text \<open>
  Claim C9. On an input of shape (bs, ch, 2m, 2n) the forward pass returns an output of
  shape (bs, ch, m, n), and saves an index array of that shape, each with one element for
  each index. On a 4-D input with an odd
  height or width the four slices are taken, two of them differ in shape, stacking them
  raises ValueError, and so does the forward pass: no output is produced.
\<close>

theorem C9_maxpool_forward_even_only:
  "(shape x = [bs, ch, 2 * m, 2 * n] \<longrightarrow>
      (\<exists>idxs out. MaxPool2x2_forward ctx x = Inr (ctx @ [idxs], out)
          \<and> shape out = [bs, ch, m, n] \<and> shape idxs = [bs, ch, m, n]
          \<and> wf_array out \<and> wf_array idxs))
   \<and> (shape x' = [bs', ch', h, w] \<and> (odd h \<or> odd w) \<longrightarrow>
      (\<exists>stack. pool_stack x' = Inr stack \<and> length stack = 4
          \<and> (\<exists>A \<in> set stack. \<exists>B \<in> set stack. shape A \<noteq> shape B)
          \<and> concatenate0 stack = Inl ValueError
          \<and> MaxPool2x2_forward ctx' x' = Inl ValueError))"
proof (intro conjI impI)
  assume "shape x = [bs, ch, 2 * m, 2 * n]"
  from MaxPool2x2_forward_even[OF this, of ctx]
  show "\<exists>idxs out. MaxPool2x2_forward ctx x = Inr (ctx @ [idxs], out)
          \<and> shape out = [bs, ch, m, n] \<and> shape idxs = [bs, ch, m, n]
          \<and> wf_array out \<and> wf_array idxs"
    by simp
next
  assume a: "shape x' = [bs', ch', h, w] \<and> (odd h \<or> odd w)"
  then have d: "(h + 1) div 2 \<noteq> h div 2 \<or> (w + 1) div 2 \<noteq> w div 2"
    by (auto elim!: oddE)
  from a MaxPool2x2_forward_odd[of x' bs' ch' h w ctx'] obtain stack where
    s: "pool_stack x' = Inr stack" "concatenate0 stack = Inl ValueError"
       "MaxPool2x2_forward ctx' x' = Inl ValueError"
    by blast
  from s(1) a have st: "stack = map (\<lambda>(Y, X). newaxis0 (tabulate [bs', ch', (h + 1 - Y) div 2, (w + 1 - X) div 2]
                    (\<lambda>idx. elt x' [idx ! 0, idx ! 1, Y + idx ! 2 * 2, X + idx ! 3 * 2])))
                 [(0, 0), (0, 1), (1, 0), (1, 1)]"
    by (simp add: pool_stack_4d)
  have "\<exists>A \<in> set stack. \<exists>B \<in> set stack. shape A \<noteq> shape B"
    using d unfolding st by (auto simp: newaxis0_def)
  with s st show "\<exists>stack. pool_stack x' = Inr stack \<and> length stack = 4
          \<and> (\<exists>A \<in> set stack. \<exists>B \<in> set stack. shape A \<noteq> shape B)
          \<and> concatenate0 stack = Inl ValueError
          \<and> MaxPool2x2_forward ctx' x' = Inl ValueError"
    by auto
qed

theorem C9_maxpool_forward_even_only_witness:
  "(\<exists>idxs out. MaxPool2x2_forward [] ex_p = Inr ([] @ [idxs], out)
          \<and> shape out = [1, 1, 1, 1] \<and> shape idxs = [1, 1, 1, 1]
          \<and> wf_array out \<and> wf_array idxs)
   \<and> (\<exists>stack. pool_stack ex_podd = Inr stack \<and> length stack = 4
          \<and> (\<exists>A \<in> set stack. \<exists>B \<in> set stack. shape A \<noteq> shape B)
          \<and> concatenate0 stack = Inl ValueError
          \<and> MaxPool2x2_forward [] ex_podd = Inl ValueError)"
  using C9_maxpool_forward_even_only[where x = ex_p and bs = 1 and ch = 1 and m = 1 and n = 1
          and x' = ex_podd and bs' = 1 and ch' = 1 and h = 3 and w = 2 and ctx = "[]" and ctx' = "[]"]
  by (simp add: ex_p_def ex_podd_def)

lemma MaxPool2x2_forward_example:
  "MaxPool2x2_forward [] ex_p
     = Inr ([\<lparr>shape = [1, 1, 1, 1], data = [1]\<rparr>], \<lparr>shape = [1, 1, 1, 1], data = [5]\<rparr>)"
  by code_simp

section \<open>Facts about the first maximum\<close>

lemma argmax_from_spec:
  assumes "best < length pre" and "m = pre ! best" and "i = length pre"
    and "\<forall>k<length pre. pre ! k \<le> m" and "\<forall>k<best. pre ! k < m"
  shows "argmax_from m best i vs < length (pre @ vs)
       \<and> (\<forall>k<length (pre @ vs). (pre @ vs) ! k \<le> (pre @ vs) ! argmax_from m best i vs)
       \<and> (\<forall>k<argmax_from m best i vs. (pre @ vs) ! k < (pre @ vs) ! argmax_from m best i vs)"
  using assms
proof (induction vs arbitrary: pre m best i)
  case Nil
  then show ?case by simp
next
  case (Cons v vs)
  show ?case
  proof (cases "m < v")
    case True
    have "argmax_from v i (Suc i) vs < length ((pre @ [v]) @ vs)
       \<and> (\<forall>k<length ((pre @ [v]) @ vs). ((pre @ [v]) @ vs) ! k \<le> ((pre @ [v]) @ vs) ! argmax_from v i (Suc i) vs)
       \<and> (\<forall>k<argmax_from v i (Suc i) vs. ((pre @ [v]) @ vs) ! k < ((pre @ [v]) @ vs) ! argmax_from v i (Suc i) vs)"
    proof (rule Cons.IH)
      show "\<forall>k<length (pre @ [v]). (pre @ [v]) ! k \<le> v"
        using Cons.prems True by (auto simp: nth_append less_Suc_eq intro: order.trans less_imp_le)
      show "\<forall>k<i. (pre @ [v]) ! k < v"
        using Cons.prems True by (auto simp: nth_append intro: le_less_trans)
    qed (use Cons.prems in \<open>auto simp: nth_append\<close>)
    with True show ?thesis by simp
  next
    case False
    have "argmax_from m best (Suc i) vs < length ((pre @ [v]) @ vs)
       \<and> (\<forall>k<length ((pre @ [v]) @ vs). ((pre @ [v]) @ vs) ! k \<le> ((pre @ [v]) @ vs) ! argmax_from m best (Suc i) vs)
       \<and> (\<forall>k<argmax_from m best (Suc i) vs. ((pre @ [v]) @ vs) ! k < ((pre @ [v]) @ vs) ! argmax_from m best (Suc i) vs)"
    proof (rule Cons.IH)
      show "\<forall>k<length (pre @ [v]). (pre @ [v]) ! k \<le> m"
        using Cons.prems False by (auto simp: nth_append less_Suc_eq)
      show "\<forall>k<best. (pre @ [v]) ! k < m"
        using Cons.prems by (auto simp: nth_append)
    qed (use Cons.prems in \<open>auto simp: nth_append\<close>)
    with False show ?thesis by simp
  qed
qed

lemma argmax_list_spec:
  assumes "vs \<noteq> []"
  shows "argmax_list vs < length vs
       \<and> (\<forall>k<length vs. vs ! k \<le> vs ! argmax_list vs)
       \<and> (\<forall>k<argmax_list vs. vs ! k < vs ! argmax_list vs)"
proof -
  from assms obtain v ws where vs: "vs = v # ws" by (cases vs) auto
  from argmax_from_spec[of 0 "[v]" v 1 ws] show ?thesis
    by (simp add: vs argmax_list_def)
qed

lemma max_list_Max: "vs \<noteq> [] \<Longrightarrow> max_list vs = Max (set vs)"
proof -
  assume "vs \<noteq> []"
  then obtain v ws where vs: "vs = v # ws" by (cases vs) auto
  have "foldl max v ws = fold max ws v"
    by (simp add: foldl_conv_fold max.commute)
  then show ?thesis using Max.set_eq_fold[of v ws] by (simp add: vs max_list_def)
qed

lemma argmax_list_max: "vs \<noteq> [] \<Longrightarrow> vs ! argmax_list vs = max_list vs"
proof -
  assume ne: "vs \<noteq> []"
  from argmax_list_spec[OF ne] have a: "argmax_list vs < length vs"
    and b: "\<forall>k<length vs. vs ! k \<le> vs ! argmax_list vs" by auto
  have "Max (set vs) = vs ! argmax_list vs"
  proof (rule Max_eqI)
    fix y assume "y \<in> set vs"
    then show "y \<le> vs ! argmax_list vs" using b by (auto simp: in_set_conv_nth)
  qed (use a in auto)
  then show ?thesis by (simp add: max_list_Max[OF ne])
qed


section \<open>MaxPool2x2: the backward pass\<close>

lemma elt_ewise1:
  "wf_array A \<Longrightarrow> valid_idx (shape A) idx \<Longrightarrow> elt (ewise1 f A) idx = f (elt A idx)"
  using ravel_less[of "shape A" idx] by (simp add: ewise1_def elt_def wf_array_def)

lemma shape_ewise1 [simp]: "shape (ewise1 f A) = shape A"
  by (simp add: ewise1_def)

lemma zeros_nat: "zeros (map int s) = Inr (full_array s 0)"
  by (auto simp: zeros_def comp_def)

lemma stride2_arith:
  assumes "Y < (2::nat)" and "y < 2 * (m::nat)"
  shows "min Y (2 * m) = Y"
    and "(Y \<le> y \<and> (y - Y) mod 2 = 0) \<longleftrightarrow> y mod 2 = Y"
    and "y mod 2 = Y \<Longrightarrow> (y - Y) div 2 = y div 2"
    and "y div 2 < m"
  using assms by (auto simp: min_def less_2_cases_iff) presburger+

lemma setitem_pool:
  assumes "shape ret = [bs, ch, 2 * m, 2 * n]" and "shape v = [bs, ch, m, n]"
    and "Y < 2" and "X < 2"
  shows "setitem ret (pool_items Y X) v
           = Inr (tabulate [bs, ch, 2 * m, 2 * n]
                    (\<lambda>idx. if idx ! 2 mod 2 = Y \<and> idx ! 3 mod 2 = X
                           then elt v [idx ! 0, idx ! 1, idx ! 2 div 2, idx ! 3 div 2]
                           else elt ret idx))"
proof -
  let ?s = "[bs, ch, m, n]"
  let ?V = "tabulate ?s (\<lambda>idx. elt v (bc_idx ?s idx))"
  have sl: "slice_len (2 * m) Y None 2 = m" "slice_len (2 * n) X None 2 = n"
    using assms(3,4) by (auto simp: slice_len_stride2 less_2_cases_iff)
  have ish: "index_shape (pool_items Y X) [bs, ch, 2 * m, 2 * n] = Inr ?s"
    by (simp add: index_shape_pool sl)
  have bt: "broadcast_to v ?s = Inr ?V"
    using assms(2) by (simp add: broadcast_to_def)
  have "tabulate [bs, ch, 2 * m, 2 * n]
          (\<lambda>idx. case index_dst (pool_items Y X) [bs, ch, 2 * m, 2 * n] idx of
                    None \<Rightarrow> elt ret idx | Some j \<Rightarrow> elt ?V j)
        = tabulate [bs, ch, 2 * m, 2 * n]
            (\<lambda>idx. if idx ! 2 mod 2 = Y \<and> idx ! 3 mod 2 = X
                   then elt v [idx ! 0, idx ! 1, idx ! 2 div 2, idx ! 3 div 2]
                   else elt ret idx)"
  proof (rule tabulate_cong)
    fix idx assume "valid_idx [bs, ch, 2 * m, 2 * n] idx"
    then obtain b c y x where idx: "idx = [b, c, y, x]"
      and r: "b < bs" "c < ch" "y < 2 * m" "x < 2 * n"
      by (auto simp: valid_idx4)
    note ay = stride2_arith[OF assms(3) r(3)] and ax = stride2_arith[OF assms(4) r(4)]
    show "(case index_dst (pool_items Y X) [bs, ch, 2 * m, 2 * n] idx of
            None \<Rightarrow> elt ret idx | Some j \<Rightarrow> elt ?V j)
          = (if idx ! 2 mod 2 = Y \<and> idx ! 3 mod 2 = X
             then elt v [idx ! 0, idx ! 1, idx ! 2 div 2, idx ! 3 div 2]
             else elt ret idx)"
    proof (cases "y mod 2 = Y \<and> x mod 2 = X")
      case True
      then have d: "index_dst (pool_items Y X) [bs, ch, 2 * m, 2 * n] [b, c, y, x]
                      = Some [b, c, y div 2, x div 2]"
        using r ay ax by (simp add: pool_items_def slice_all_def slice_stop_def)
      have "valid_idx ?s [b, c, y div 2, x div 2]"
        using r ay(4) ax(4) by simp
      then have "elt ?V [b, c, y div 2, x div 2] = elt v [b, c, y div 2, x div 2]"
        by (simp add: elt_tabulate bc_idx_same del: valid_idx.simps)
      with True d show ?thesis by (simp add: idx)
    next
      case False
      then have "index_dst (pool_items Y X) [bs, ch, 2 * m, 2 * n] [b, c, y, x] = None"
        using r ay(1,2) ax(1,2) by (auto simp: pool_items_def slice_all_def slice_stop_def)
      with False show ?thesis by (auto simp: idx)
    qed
  qed
  then show ?thesis
    by (simp add: setitem_def assms(1) ish bt)
qed

lemma pool_mask:
  assumes "shape g = [bs, ch, m, n]" and "shape idxs = [bs, ch, m, n]" and "wf_array idxs"
  shows "ewise2 (\<lambda>g m. g * of_bool m) g (ewise1 (\<lambda>i. i = k) idxs)
           = Inr (tabulate [bs, ch, m, n] (\<lambda>idx. elt g idx * of_bool (elt idxs idx = k)))"
proof -
  have "tabulate [bs, ch, m, n] (\<lambda>idx. elt g idx * of_bool (elt (ewise1 (\<lambda>i. i = k) idxs) idx))
        = tabulate [bs, ch, m, n] (\<lambda>idx. elt g idx * of_bool (elt idxs idx = k))"
    using assms(2,3) by (intro tabulate_cong) (simp add: elt_ewise1)
  then show ?thesis
    using ewise2_same[of g "[bs, ch, m, n]" "ewise1 (\<lambda>i. i = k) idxs" "\<lambda>g m. g * of_bool m"] assms
    by simp
qed

lemma MaxPool2x2_backward_elt:
  fixes g :: "('a::semiring_1) ndarray"
  assumes "shape g = [bs, ch, m, n]" and "shape idxs = [bs, ch, m, n]" and "wf_array idxs"
  shows "\<exists>r. MaxPool2x2_backward [idxs] g = Inr (Some r) \<and> shape r = [bs, ch, 2 * m, 2 * n]
           \<and> wf_array r
           \<and> (\<forall>b<bs. \<forall>c<ch. \<forall>i<m. \<forall>j<n. \<forall>Y<2. \<forall>X<2.
                 elt r [b, c, 2 * i + Y, 2 * j + X]
                   = (if elt idxs [b, c, i, j] = 2 * Y + X then elt g [b, c, i, j] else 0))"
proof -
  let ?s = "[bs, ch, 2 * m, 2 * n]"
  let ?v = "\<lambda>k. tabulate [bs, ch, m, n] (\<lambda>idx. elt g idx * of_bool (elt idxs idx = k))"
  let ?step = "\<lambda>ret Y X. tabulate ?s
                    (\<lambda>idx. if idx ! 2 mod 2 = Y \<and> idx ! 3 mod 2 = X
                           then elt (?v (Y * 2 + X)) [idx ! 0, idx ! 1, idx ! 2 div 2, idx ! 3 div 2]
                           else elt ret idx)"
  define r0 :: "'a ndarray" where "r0 = full_array ?s 0"
  define r1 where "r1 = ?step r0 0 0"
  define r2 where "r2 = ?step r1 0 1"
  define r3 where "r3 = ?step r2 1 0"
  define r4 where "r4 = ?step r3 1 1"
  have sh: "shape r0 = ?s" "shape r1 = ?s" "shape r2 = ?s" "shape r3 = ?s" "shape r4 = ?s"
    by (simp_all add: r0_def r1_def r2_def r3_def r4_def full_array_def)
  have z: "zeros [int bs, int ch, int m * 2, int n * 2] = Inr r0"
    using zeros_nat[of "[bs, ch, m * 2, n * 2]"] by (simp add: r0_def mult.commute)
  have st: "MaxPool2x2_backward_step idxs g Y ret X = Inr (?step ret Y X)"
    if "shape ret = ?s" "Y < 2" "X < 2" for ret Y X
    unfolding MaxPool2x2_backward_step_def
    using setitem_pool[OF that(1) _ that(2,3), of "?v (Y * 2 + X)"]
    by (simp add: pool_mask[OF assms])
  have s1: "MaxPool2x2_backward_step idxs g 0 r0 0 = Inr r1"
    unfolding r1_def by (rule st) (simp_all add: sh)
  have s2: "MaxPool2x2_backward_step idxs g 0 r1 (Suc 0) = Inr r2"
    unfolding r2_def using st[of r1 0 1] sh by simp
  have s3: "MaxPool2x2_backward_step idxs g (Suc 0) r2 0 = Inr r3"
    unfolding r3_def using st[of r2 1 0] sh by simp
  have s4: "MaxPool2x2_backward_step idxs g (Suc 0) r3 (Suc 0) = Inr r4"
    unfolding r4_def using st[of r3 1 1] sh by simp
  have b: "MaxPool2x2_backward [idxs] g = Inr (Some r4)"
    unfolding MaxPool2x2_backward_def
    by (simp add: assms(1) z upt_2 s1 s2 s3 s4)
  have es: "elt (?step ret Y' X') [b, c, y, x]
              = (if y mod 2 = Y' \<and> x mod 2 = X'
                 then elt g [b, c, y div 2, x div 2]
                        * of_bool (elt idxs [b, c, y div 2, x div 2] = Y' * 2 + X')
                 else elt ret [b, c, y, x])"
    if "b < bs" "c < ch" "y < 2 * m" "x < 2 * n" for ret Y' X' b c y x
  proof -
    have v: "valid_idx ?s [b, c, y, x]" using that by simp
    have "y div 2 < m" "x div 2 < n" using that by auto
    then have v': "valid_idx [bs, ch, m, n] [b, c, y div 2, x div 2]" using that by simp
    show ?thesis
      by (simp add: elt_tabulate[OF v] elt_tabulate[OF v'])
  qed
  have e0: "elt r0 [b, c, y, x] = 0" if "b < bs" "c < ch" "y < 2 * m" "x < 2 * n" for b c y x
    using that by (simp add: r0_def elt_full_array)
  have e: "elt r4 [b, c, 2 * i + Y, 2 * j + X]
             = (if elt idxs [b, c, i, j] = 2 * Y + X then elt g [b, c, i, j] else 0)"
    if "b < bs" "c < ch" "i < m" "j < n" "Y < 2" "X < 2" for b c i j Y X
  proof -
    define y where "y = 2 * i + Y"
    define x where "x = 2 * j + X"
    have r: "y < 2 * m" "x < 2 * n" using that by (auto simp: y_def x_def)
    have md: "y mod 2 = Y" "x mod 2 = X" "y div 2 = i" "x div 2 = j"
      using that(5,6) by (auto simp: y_def x_def)
    note E = es[OF that(1,2) r] e0[OF that(1,2) r]
    have "elt r4 [b, c, y, x]
            = (if elt idxs [b, c, i, j] = 2 * Y + X then elt g [b, c, i, j] else 0)"
      unfolding r4_def r3_def r2_def r1_def E md
      using that(5,6) by (auto simp: less_2_cases_iff)
    then show ?thesis by (simp add: y_def x_def)
  qed
  have "wf_array r4" by (simp add: r4_def)
  with b sh(5) e show ?thesis by blast
qed


lemma pool_cands_nth:
  "Y < 2 \<Longrightarrow> X < 2 \<Longrightarrow> pool_cands x b c i j ! (2 * Y + X) = elt x [b, c, 2 * i + Y, 2 * j + X]"
  by (auto simp: pool_cands_def less_2_cases_iff)

text \<open>
  Claim C3. For an input \<open>x\<close> of shape (bs, ch, 2m, 2n) and a gradient \<open>g\<close> of the shape
  of the output, the saved index of a block is the first position of its maximum among the
  four candidates taken row offset first: no candidate exceeds the one at the saved index,
  and every candidate before it is strictly smaller, so of several equal maxima the one of
  lowest index wins. The output is the candidate at the saved index. The backward pass
  writes, into each of the four positions of each block, the gradient of the block when
  the position is the saved one and zero otherwise.
\<close>

theorem C3_maxpool_backward_routes_to_first_max:
  fixes x :: "('a::linorder) ndarray" and g :: "('b::semiring_1) ndarray"
  assumes "shape x = [bs, ch, 2 * m, 2 * n]" and "shape g = [bs, ch, m, n]"
  shows "\<exists>idxs out r.
           MaxPool2x2_forward [] x = Inr ([idxs], out)
         \<and> MaxPool2x2_backward [idxs] g = Inr (Some r) \<and> shape r = [bs, ch, 2 * m, 2 * n]
         \<and> (\<forall>b<bs. \<forall>c<ch. \<forall>i<m. \<forall>j<n.
               elt idxs [b, c, i, j] < 4
             \<and> (\<forall>Y<2. \<forall>X<2. pool_cands x b c i j ! (2 * Y + X) = elt x [b, c, 2 * i + Y, 2 * j + X])
             \<and> (\<forall>k<4. pool_cands x b c i j ! k \<le> pool_cands x b c i j ! elt idxs [b, c, i, j])
             \<and> (\<forall>k<elt idxs [b, c, i, j].
                   pool_cands x b c i j ! k < pool_cands x b c i j ! elt idxs [b, c, i, j])
             \<and> elt out [b, c, i, j] = pool_cands x b c i j ! elt idxs [b, c, i, j]
             \<and> (\<forall>Y<2. \<forall>X<2.
                   elt r [b, c, 2 * i + Y, 2 * j + X]
                     = (if elt idxs [b, c, i, j] = 2 * Y + X then elt g [b, c, i, j] else 0)))"
proof -
  define idxs where "idxs = tabulate [bs, ch, m, n]
      (\<lambda>idx. argmax_list (pool_cands x (idx ! 0) (idx ! 1) (idx ! 2) (idx ! 3)))"
  define out where "out = tabulate [bs, ch, m, n]
      (\<lambda>idx. max_list (pool_cands x (idx ! 0) (idx ! 1) (idx ! 2) (idx ! 3)))"
  have f: "MaxPool2x2_forward [] x = Inr ([idxs], out)"
    using MaxPool2x2_forward_even[OF assms(1), of "[]"] by (simp add: idxs_def out_def)
  have "shape idxs = [bs, ch, m, n]" "wf_array idxs" by (simp_all add: idxs_def)
  from MaxPool2x2_backward_elt[OF assms(2) this] obtain r where
    b: "MaxPool2x2_backward [idxs] g = Inr (Some r)" "shape r = [bs, ch, 2 * m, 2 * n]"
    and er: "\<forall>b<bs. \<forall>c<ch. \<forall>i<m. \<forall>j<n. \<forall>Y<2. \<forall>X<2.
                 elt r [b, c, 2 * i + Y, 2 * j + X]
                   = (if elt idxs [b, c, i, j] = 2 * Y + X then elt g [b, c, i, j] else 0)"
    by blast
  have blk: "elt idxs [b, c, i, j] < 4
             \<and> (\<forall>Y<2. \<forall>X<2. pool_cands x b c i j ! (2 * Y + X) = elt x [b, c, 2 * i + Y, 2 * j + X])
             \<and> (\<forall>k<4. pool_cands x b c i j ! k \<le> pool_cands x b c i j ! elt idxs [b, c, i, j])
             \<and> (\<forall>k<elt idxs [b, c, i, j].
                   pool_cands x b c i j ! k < pool_cands x b c i j ! elt idxs [b, c, i, j])
             \<and> elt out [b, c, i, j] = pool_cands x b c i j ! elt idxs [b, c, i, j]"
    if "b < bs" "c < ch" "i < m" "j < n" for b c i j
  proof -
    let ?cs = "pool_cands x b c i j"
    have ne: "?cs \<noteq> []" and len: "length ?cs = 4" by (simp_all add: pool_cands_def)
    have ei: "elt idxs [b, c, i, j] = argmax_list ?cs"
      using that by (simp add: idxs_def elt_tabulate)
    have eo: "elt out [b, c, i, j] = max_list ?cs"
      using that by (simp add: out_def elt_tabulate)
    show ?thesis
      unfolding ei eo
      using argmax_list_spec[OF ne] argmax_list_max[OF ne] pool_cands_nth[of _ _ x b c i j]
      by (simp add: len)
  qed
  show ?thesis
    using f b er blk by (intro exI[of _ idxs] exI[of _ out] exI[of _ r]) simp
qed

theorem C3_maxpool_backward_routes_to_first_max_witness:
  "\<exists>idxs out r.
           MaxPool2x2_forward [] ex_p = Inr ([idxs], out)
         \<and> MaxPool2x2_backward [idxs] ex_pg = Inr (Some r) \<and> shape r = [1, 1, 2 * 1, 2 * 1]
         \<and> (\<forall>b<1. \<forall>c<1. \<forall>i<1. \<forall>j<1.
               elt idxs [b, c, i, j] < 4
             \<and> (\<forall>Y<2. \<forall>X<2. pool_cands ex_p b c i j ! (2 * Y + X) = elt ex_p [b, c, 2 * i + Y, 2 * j + X])
             \<and> (\<forall>k<4. pool_cands ex_p b c i j ! k \<le> pool_cands ex_p b c i j ! elt idxs [b, c, i, j])
             \<and> (\<forall>k<elt idxs [b, c, i, j].
                   pool_cands ex_p b c i j ! k < pool_cands ex_p b c i j ! elt idxs [b, c, i, j])
             \<and> elt out [b, c, i, j] = pool_cands ex_p b c i j ! elt idxs [b, c, i, j]
             \<and> (\<forall>Y<2. \<forall>X<2.
                   elt r [b, c, 2 * i + Y, 2 * j + X]
                     = (if elt idxs [b, c, i, j] = 2 * Y + X then elt ex_pg [b, c, i, j] else 0)))"
  by (rule C3_maxpool_backward_routes_to_first_max) (simp_all add: ex_p_def ex_pg_def)

text \<open>Two equal maxima: the block \<open>[[1, 5], [5, 0]]\<close> has its maximum at candidates 1 and 2;
  the saved index is 1 and the whole gradient goes to the first row, second column.\<close>

lemma MaxPool2x2_backward_example:
  "MaxPool2x2_backward [\<lparr>shape = [1, 1, 1, 1], data = [1]\<rparr>] ex_pg
     = Inr (Some \<lparr>shape = [1, 1, 2, 2], data = [0, 10, 0, 0]\<rparr>)"
  by code_simp

section \<open>Facts about moving axes\<close>

lemma moveaxis_channels_first:
  assumes "shape A = [a, b, c, d]"
  shows "moveaxis A [0, 1, 2, 3] [0, 2, 3, 1]
           = Inr (tabulate [a, d, b, c] (\<lambda>idx. elt A [idx ! 0, idx ! 2, idx ! 3, idx ! 1]))"
proof -
  have "{0, 3, Suc 0, 2} = {..<4::nat}" by auto
  then have "transpose_axes A [0, 3, 1, 2]
          = Inr (tabulate [a, d, b, c] (\<lambda>idx. elt A [idx ! 0, idx ! 2, idx ! 3, idx ! 1]))"
    using assms by (simp add: transpose_axes_def upt_4 index_of_def numeral_2_eq_2 numeral_3_eq_3)
  then show ?thesis
    using assms by (simp add: moveaxis_def upt_4 insert_at_def)
qed

lemma moveaxis_swap01:
  assumes "shape A = [a, b, c, d]"
  shows "moveaxis A [0, 1, 2, 3] [1, 0, 2, 3]
           = Inr (tabulate [b, a, c, d] (\<lambda>idx. elt A [idx ! 1, idx ! 0, idx ! 2, idx ! 3]))"
proof -
  have "{Suc 0, 0, 2, 3} = {..<4::nat}" by auto
  then have "transpose_axes A [1, 0, 2, 3]
          = Inr (tabulate [b, a, c, d] (\<lambda>idx. elt A [idx ! 1, idx ! 0, idx ! 2, idx ! 3]))"
    using assms by (simp add: transpose_axes_def upt_4 index_of_def numeral_2_eq_2 numeral_3_eq_3)
  then show ?thesis
    using assms by (simp add: moveaxis_def upt_4 insert_at_def)
qed

section \<open>Facts about flattening and unflattening\<close>

lemma ravel_append:
  "valid_idx s i1 \<Longrightarrow> ravel (s @ t) (i1 @ i2) = ravel s i1 * prod_list t + ravel t i2"
  by (induction s i1 rule: valid_idx.induct) (auto simp: algebra_simps)

lemma valid_idx_append:
  "valid_idx s i1 \<Longrightarrow> valid_idx t i2 \<Longrightarrow> valid_idx (s @ t) (i1 @ i2)"
  by (induction s i1 rule: valid_idx.induct) auto

lemma elt_shape_upd: "elt (A\<lparr>shape := s\<rparr>) idx = data A ! ravel s idx"
  by (simp add: elt_def)

text \<open>Reading a matrix view of an array of shape \<open>s @ t\<close>, and an \<open>s @ t\<close> view of a matrix.\<close>

lemma elt_flatten:
  assumes "shape A = s @ t" and "valid_idx s i1"
  shows "elt (A\<lparr>shape := [prod_list s, prod_list t]\<rparr>) [ravel s i1, ravel t i2] = elt A (i1 @ i2)"
  using assms by (simp add: elt_def ravel_append)

lemma elt_unflatten:
  assumes "shape A = [prod_list s, prod_list t]" and "valid_idx s i1"
  shows "elt (A\<lparr>shape := s @ t\<rparr>) (i1 @ i2) = elt A [ravel s i1, ravel t i2]"
  using assms by (simp add: elt_def ravel_append)

lemma ravel_surj: "k < prod_list s \<Longrightarrow> \<exists>q. valid_idx s q \<and> k = ravel s q"
  using indices_nth_valid[of k s] by metis

lemma reshape_rows:
  assumes "length (data A) = r * k" and "0 < r"
  shows "reshape A [int r, -1] = Inr (A\<lparr>shape := [r, k]\<rparr>)"
  using assms by (simp add: reshape_def infer_shape_def)

lemma reshape_ints:
  assumes "s = map int s'" and "prod_list s' = length (data A)"
  shows "reshape A s = Inr (A\<lparr>shape := s'\<rparr>)"
  using assms by (simp add: reshape_nat)

lemma length_data_tabulate [simp]: "length (data (tabulate s f)) = prod_list s"
  by (simp add: tabulate_def)

section \<open>FastConv2D: the shape of the output\<close>

text \<open>
  Claim C10. The input has shape (bs, cin, iy, ix) and the weight, a well-formed array with
  at least one output channel, has shape (cout, cin, H, W) with \<open>H \<le> iy\<close> and \<open>W \<le> ix\<close>.
  Whenever the patch extraction returns a matrix with one row for each of the
  \<open>bs (iy - H + 1) (ix - W + 1)\<close> windows and one column for each of the \<open>cin H W\<close> entries
  of a window, the forward pass returns an array of shape
  (bs, cout, iy - H + 1, ix - W + 1), with one element for each index, and saves the patch
  matrix and the weight.
\<close>

theorem C10_fastconv_forward_shape:
  fixes x w :: "('a::semiring_0) ndarray"
  assumes "shape x = [bs, cin, iy, ix]" and "shape w = [cout, cin, H, W]" and "wf_array w"
    and "0 < cout" and "H \<le> iy" and "W \<le> ix"
    and "im2col_fn x H W = Inr tx"
    and "shape tx = [bs * (iy + 1 - H) * (ix + 1 - W), cin * H * W]"
  shows "\<exists>r. FastConv2D_forward im2col_fn ctx x w = Inr (ctx @ [tx, w], r)
           \<and> shape r = [bs, cout, iy + 1 - H, ix + 1 - W] \<and> wf_array r"
proof -
  define oy ox K where "oy = iy + 1 - H" and "ox = ix + 1 - W" and "K = cin * H * W"
  have lw: "length (data w) = cout * K"
    using assms(2,3) by (simp add: wf_array_def K_def mult.assoc)
  have rw: "reshape w [int cout, -1] = Inr (w\<lparr>shape := [cout, K]\<rparr>)"
    using lw assms(4) by (rule reshape_rows)
  define tw where "tw = T (w\<lparr>shape := [cout, K]\<rparr>)"
  define m where "m = tabulate [bs * oy * ox, cout] (\<lambda>idx. \<Sum>l<K. elt tx [idx ! 0, l] * elt tw [l, idx ! 1])"
  have stx: "shape tx = [bs * oy * ox, K]"
    using assms(8) by (simp add: oy_def ox_def K_def)
  have d: "dot tx tw = Inr m"
    unfolding m_def using stx by (intro dot_matrix) (simp_all add: tw_def)
  have oy: "int iy - (int H - 1) = int oy" "int ix - (int W - 1) = int ox"
    using assms(5,6) by (auto simp: oy_def ox_def)
  have rm: "reshape m [int bs, int oy, int ox, int cout] = Inr (m\<lparr>shape := [bs, oy, ox, cout]\<rparr>)"
    by (rule reshape_ints) (simp_all add: m_def)
  have mv: "moveaxis (m\<lparr>shape := [bs, oy, ox, cout]\<rparr>) [0, 1, 2, 3] [0, 2, 3, 1]
              = Inr (tabulate [bs, cout, oy, ox]
                       (\<lambda>idx. elt (m\<lparr>shape := [bs, oy, ox, cout]\<rparr>) [idx ! 0, idx ! 2, idx ! 3, idx ! 1]))"
    by (rule moveaxis_channels_first) simp
  have "FastConv2D_forward im2col_fn ctx x w
          = Inr (ctx @ [tx, w], tabulate [bs, cout, oy, ox]
                       (\<lambda>idx. elt (m\<lparr>shape := [bs, oy, ox, cout]\<rparr>) [idx ! 0, idx ! 2, idx ! 3, idx ! 1]))"
    unfolding FastConv2D_forward_def
    using mv by (simp add: assms(1,2,7) rw tw_def[symmetric] d oy rm save_for_backward_def)
  then show ?thesis by (simp add: oy_def ox_def)
qed

lemma im2col_shape:
  assumes "shape x = [bs, cin, iy, ix]" and "H \<le> iy" and "W \<le> ix"
  shows "\<exists>tx. im2col x H W = Inr tx
            \<and> shape tx = [bs * (iy + 1 - H) * (ix + 1 - W), cin * H * W] \<and> wf_array tx"
  using assms by (simp add: im2col_def wf_array_def Let_def mult.assoc)


lemma im2col_example: "im2col ex_cx 1 2 = Inr ex_tx"
  by code_simp

lemma im2col_kernel_too_large: "im2col ex_cx 3 2 = Inl ValueError"
  by (simp add: im2col_def ex_cx_def)

theorem C10_fastconv_forward_shape_witness:
  "\<exists>r. FastConv2D_forward im2col [] ex_cx ex_cw = Inr ([] @ [ex_tx, ex_cw], r)
       \<and> shape r = [1, 1, 2 + 1 - 1, 2 + 1 - 2] \<and> wf_array r"
proof (rule C10_fastconv_forward_shape)
  show "im2col ex_cx 1 2 = Inr ex_tx" by (rule im2col_example)
qed (simp_all add: ex_cx_def ex_cw_def ex_tx_def wf_array_def)

lemma FastConv2D_forward_example:
  "FastConv2D_forward im2col [] ex_cx ex_cw
     = Inr ([ex_tx, ex_cw], \<lparr>shape = [1, 1, 2, 1], data = [19, 43]\<rparr>)"
  by code_simp

section \<open>Facts about loops\<close>

lemma fold_err_invariant_aux:
  assumes "I ys s"
    and "\<And>ys y zs s. I ys s \<Longrightarrow> xs = ys @ y # zs \<Longrightarrow> \<exists>s'. f s y = Inr s' \<and> I (ys @ [y]) s'"
    and "xs = ys @ rest"
  shows "\<exists>s'. fold_err f s rest = Inr s' \<and> I xs s'"
  using assms(1,3)
proof (induction rest arbitrary: ys s)
  case Nil
  then show ?case by simp
next
  case (Cons y rest)
  from assms(2)[OF Cons.prems(1), of y rest] Cons.prems(2)
  obtain s' where s': "f s y = Inr s'" "I (ys @ [y]) s'" by auto
  from Cons.IH[OF s'(2)] Cons.prems(2) obtain s'' where
    "fold_err f s' rest = Inr s''" "I xs s''" by auto
  with s'(1) show ?case by simp
qed

lemma fold_err_invariant:
  assumes "I [] s"
    and "\<And>ys y zs s. I ys s \<Longrightarrow> xs = ys @ y # zs \<Longrightarrow> \<exists>s'. f s y = Inr s' \<and> I (ys @ [y]) s'"
  shows "\<exists>s'. fold_err f s xs = Inr s' \<and> I xs s'"
  using fold_err_invariant_aux[of I "[]" s xs f xs] assms by simp

lemma upt_split_less:
  assumes "[0..<n] = ys @ y # zs"
  shows "y < n \<and> set ys = {..<y}"
proof -
  have n: "n = length ys + Suc (length zs)"
    using arg_cong[OF assms, of length] by simp
  have "[0..<n] ! length ys = y"
    unfolding assms by simp
  moreover have "[0..<n] ! length ys = 0 + length ys"
    using n by (intro nth_upt) simp
  ultimately have y: "y = length ys" by simp
  have "take (length ys) [0..<n] = ys"
    unfolding assms by simp
  moreover have "take (length ys) [0..<n] = [0..<0 + length ys]"
    using n by (intro take_upt) simp
  ultimately have "ys = [0..<length ys]" by simp
  then have "set ys = set [0..<length ys]" by simp
  then have "set ys = {..<length ys}" by (simp add: atLeast0LessThan)
  with y n show ?thesis by simp
qed

section \<open>Facts about the windows of a convolution\<close>

lemma slice_len_window: "Y + H \<le> n \<Longrightarrow> slice_len n Y (Some (Y + H)) (Suc 0) = H"
  by (simp add: slice_len_def slice_stop_def min_def)

lemma getitem_patch:
  assumes "shape x = [bs, cin, iy, ix]" and "Y + H \<le> iy" and "X + W \<le> ix"
  shows "getitem x (patch_items Y H X W)
           = Inr (tabulate [bs, cin, H, W] (\<lambda>idx. elt x [idx ! 0, idx ! 1, Y + idx ! 2, X + idx ! 3]))"
proof -
  have "tabulate [bs, cin, H, W] (\<lambda>idx. elt x (index_src (patch_items Y H X W) [bs, cin, iy, ix] idx))
        = tabulate [bs, cin, H, W] (\<lambda>idx. elt x [idx ! 0, idx ! 1, Y + idx ! 2, X + idx ! 3])"
  proof (rule tabulate_cong)
    fix idx assume "valid_idx [bs, cin, H, W] idx"
    then obtain b c h v where idx: "idx = [b, c, h, v]" and r: "h < H" "v < W"
      by (auto simp: valid_idx4)
    from r assms have "min Y iy = Y" "min X ix = X" by (auto simp: min_def)
    then show "elt x (index_src (patch_items Y H X W) [bs, cin, iy, ix] idx)
                = elt x [idx ! 0, idx ! 1, Y + idx ! 2, X + idx ! 3]"
      by (simp add: idx patch_items_def slice_all_def)
  qed
  then show ?thesis
    using assms by (simp add: getitem_def patch_items_def slice_all_def slice_len_window)
qed

lemma getitem_point:
  assumes "shape g = [bs, cout, oy, ox]" and "Y < oy" and "X < ox"
  shows "getitem g [slice_all, slice_all, At Y, At X]
           = Inr (tabulate [bs, cout] (\<lambda>idx. elt g [idx ! 0, idx ! 1, Y, X]))"
proof -
  have "tabulate [bs, cout] (\<lambda>idx. elt g (index_src [slice_all, slice_all, At Y, At X] [bs, cout, oy, ox] idx))
        = tabulate [bs, cout] (\<lambda>idx. elt g [idx ! 0, idx ! 1, Y, X])"
    by (rule tabulate_cong) (auto simp: valid_idx2 slice_all_def)
  then show ?thesis
    using assms by (simp add: getitem_def slice_all_def)
qed

lemma setitem_point:
  assumes "shape ret = [bs, cout, oy, ox]" and "Y < oy" and "X < ox" and "shape v = [bs, cout]"
  shows "setitem ret [slice_all, slice_all, At Y, At X] v
           = Inr (tabulate [bs, cout, oy, ox]
                    (\<lambda>idx. if idx ! 2 = Y \<and> idx ! 3 = X then elt v [idx ! 0, idx ! 1]
                           else elt ret idx))"
proof -
  let ?V = "tabulate [bs, cout] (\<lambda>idx. elt v (bc_idx [bs, cout] idx))"
  have bt: "broadcast_to v [bs, cout] = Inr ?V"
    using assms(4) by (simp add: broadcast_to_def)
  have "tabulate [bs, cout, oy, ox]
          (\<lambda>idx. case index_dst [slice_all, slice_all, At Y, At X] [bs, cout, oy, ox] idx of
                    None \<Rightarrow> elt ret idx | Some j \<Rightarrow> elt ?V j)
        = tabulate [bs, cout, oy, ox]
            (\<lambda>idx. if idx ! 2 = Y \<and> idx ! 3 = X then elt v [idx ! 0, idx ! 1] else elt ret idx)"
  proof (rule tabulate_cong)
    fix idx assume "valid_idx [bs, cout, oy, ox] idx"
    then obtain b c y z where idx: "idx = [b, c, y, z]" and r: "b < bs" "c < cout"
      by (auto simp: valid_idx4)
    have "elt ?V [b, c] = elt v [b, c]"
      using r by (simp add: elt_tabulate bc_idx2)
    then show "(case index_dst [slice_all, slice_all, At Y, At X] [bs, cout, oy, ox] idx of
                  None \<Rightarrow> elt ret idx | Some j \<Rightarrow> elt ?V j)
               = (if idx ! 2 = Y \<and> idx ! 3 = X then elt v [idx ! 0, idx ! 1] else elt ret idx)"
      using r by (simp add: idx slice_all_def slice_stop_def)
  qed
  then show ?thesis
    using assms by (simp add: setitem_def slice_all_def bt)
qed

lemma iadd_same:
  "shape A = s \<Longrightarrow> shape B = s \<Longrightarrow> iadd A B = Inr (tabulate s (\<lambda>idx. elt A idx + elt B idx))"
  by (simp add: iadd_def ewise2_same)

lemma setitem_patch:
  assumes "shape dx = [bs, cin, iy, ix]" and "Y + H \<le> iy" and "X + W \<le> ix"
    and "shape v = [bs, cin, H, W]"
  shows "setitem dx (patch_items Y H X W) v
           = Inr (tabulate [bs, cin, iy, ix]
                    (\<lambda>idx. if Y \<le> idx ! 2 \<and> idx ! 2 < Y + H \<and> X \<le> idx ! 3 \<and> idx ! 3 < X + W
                           then elt v [idx ! 0, idx ! 1, idx ! 2 - Y, idx ! 3 - X]
                           else elt dx idx))"
proof -
  let ?s = "[bs, cin, H, W]"
  let ?V = "tabulate ?s (\<lambda>idx. elt v (bc_idx ?s idx))"
  have ish: "index_shape (patch_items Y H X W) [bs, cin, iy, ix] = Inr ?s"
    using assms(2,3) by (simp add: patch_items_def slice_all_def slice_len_window)
  have bt: "broadcast_to v ?s = Inr ?V"
    using assms(4) by (simp add: broadcast_to_def)
  have "tabulate [bs, cin, iy, ix]
          (\<lambda>idx. case index_dst (patch_items Y H X W) [bs, cin, iy, ix] idx of
                    None \<Rightarrow> elt dx idx | Some j \<Rightarrow> elt ?V j)
        = tabulate [bs, cin, iy, ix]
            (\<lambda>idx. if Y \<le> idx ! 2 \<and> idx ! 2 < Y + H \<and> X \<le> idx ! 3 \<and> idx ! 3 < X + W
                   then elt v [idx ! 0, idx ! 1, idx ! 2 - Y, idx ! 3 - X]
                   else elt dx idx)"
  proof (rule tabulate_cong)
    fix idx assume "valid_idx [bs, cin, iy, ix] idx"
    then obtain b c y z where idx: "idx = [b, c, y, z]"
      and r: "b < bs" "c < cin" "y < iy" "z < ix"
      by (auto simp: valid_idx4)
    have mn: "min Y iy = Y" "min X ix = X" "min (Y + H) iy = Y + H" "min (X + W) ix = X + W"
      using assms(2,3) by (auto simp: min_def)
    show "(case index_dst (patch_items Y H X W) [bs, cin, iy, ix] idx of
             None \<Rightarrow> elt dx idx | Some j \<Rightarrow> elt ?V j)
          = (if Y \<le> idx ! 2 \<and> idx ! 2 < Y + H \<and> X \<le> idx ! 3 \<and> idx ! 3 < X + W
             then elt v [idx ! 0, idx ! 1, idx ! 2 - Y, idx ! 3 - X]
             else elt dx idx)"
    proof (cases "Y \<le> y \<and> y < Y + H \<and> X \<le> z \<and> z < X + W")
      case True
      then have "valid_idx ?s [b, c, y - Y, z - X]" using r by auto
      then have "elt ?V [b, c, y - Y, z - X] = elt v [b, c, y - Y, z - X]"
        by (simp add: elt_tabulate bc_idx_same del: valid_idx.simps)
      with True r show ?thesis
        by (simp add: idx patch_items_def slice_all_def slice_stop_def mn)
    next
      case False
      then show ?thesis
        using r by (auto simp: idx patch_items_def slice_all_def slice_stop_def mn)
    qed
  qed
  then show ?thesis
    by (simp add: setitem_def assms(1) ish bt)
qed

lemma iadd_item_patch:
  assumes "shape dx = [bs, cin, iy, ix]" and "Y + H \<le> iy" and "X + W \<le> ix"
    and "shape v = [bs, cin, H, W]"
  shows "iadd_item dx (patch_items Y H X W) v
           = Inr (tabulate [bs, cin, iy, ix]
                    (\<lambda>idx. if Y \<le> idx ! 2 \<and> idx ! 2 < Y + H \<and> X \<le> idx ! 3 \<and> idx ! 3 < X + W
                           then elt dx idx + elt v [idx ! 0, idx ! 1, idx ! 2 - Y, idx ! 3 - X]
                           else elt dx idx))"
proof -
  let ?sel = "tabulate [bs, cin, H, W] (\<lambda>idx. elt dx [idx ! 0, idx ! 1, Y + idx ! 2, X + idx ! 3])"
  let ?sel' = "tabulate [bs, cin, H, W] (\<lambda>idx. elt ?sel idx + elt v idx)"
  have g: "getitem dx (patch_items Y H X W) = Inr ?sel"
    using assms(1-3) by (rule getitem_patch)
  have a: "iadd ?sel v = Inr ?sel'"
    using assms(4) by (intro iadd_same) simp_all
  have "tabulate [bs, cin, iy, ix]
          (\<lambda>idx. if Y \<le> idx ! 2 \<and> idx ! 2 < Y + H \<and> X \<le> idx ! 3 \<and> idx ! 3 < X + W
                 then elt ?sel' [idx ! 0, idx ! 1, idx ! 2 - Y, idx ! 3 - X]
                 else elt dx idx)
        = tabulate [bs, cin, iy, ix]
          (\<lambda>idx. if Y \<le> idx ! 2 \<and> idx ! 2 < Y + H \<and> X \<le> idx ! 3 \<and> idx ! 3 < X + W
                 then elt dx idx + elt v [idx ! 0, idx ! 1, idx ! 2 - Y, idx ! 3 - X]
                 else elt dx idx)"
  proof (rule tabulate_cong)
    fix idx assume "valid_idx [bs, cin, iy, ix] idx"
    then obtain b c y z where idx: "idx = [b, c, y, z]"
      and r: "b < bs" "c < cin" "y < iy" "z < ix"
      by (auto simp: valid_idx4)
    show "(if Y \<le> idx ! 2 \<and> idx ! 2 < Y + H \<and> X \<le> idx ! 3 \<and> idx ! 3 < X + W
           then elt ?sel' [idx ! 0, idx ! 1, idx ! 2 - Y, idx ! 3 - X] else elt dx idx)
        = (if Y \<le> idx ! 2 \<and> idx ! 2 < Y + H \<and> X \<le> idx ! 3 \<and> idx ! 3 < X + W
           then elt dx idx + elt v [idx ! 0, idx ! 1, idx ! 2 - Y, idx ! 3 - X] else elt dx idx)"
    proof (cases "Y \<le> y \<and> y < Y + H \<and> X \<le> z \<and> z < X + W")
      case True
      then have v: "valid_idx [bs, cin, H, W] [b, c, y - Y, z - X]" using r by auto
      show ?thesis
        using True by (simp add: idx elt_tabulate[OF v])
    next
      case False
      then show ?thesis by (auto simp: idx)
    qed
  qed
  then have eq: "Inr (tabulate [bs, cin, iy, ix]
          (\<lambda>idx. if Y \<le> idx ! 2 \<and> idx ! 2 < Y + H \<and> X \<le> idx ! 3 \<and> idx ! 3 < X + W
                 then elt ?sel' [idx ! 0, idx ! 1, idx ! 2 - Y, idx ! 3 - X]
                 else elt dx idx))
        = (Inr (tabulate [bs, cin, iy, ix]
          (\<lambda>idx. if Y \<le> idx ! 2 \<and> idx ! 2 < Y + H \<and> X \<le> idx ! 3 \<and> idx ! 3 < X + W
                 then elt dx idx + elt v [idx ! 0, idx ! 1, idx ! 2 - Y, idx ! 3 - X]
                 else elt dx idx)) :: error + 'a ndarray)"
    by (simp only:)
  have s: "setitem dx (patch_items Y H X W) ?sel'
             = Inr (tabulate [bs, cin, iy, ix]
                 (\<lambda>idx. if Y \<le> idx ! 2 \<and> idx ! 2 < Y + H \<and> X \<le> idx ! 3 \<and> idx ! 3 < X + W
                        then elt ?sel' [idx ! 0, idx ! 1, idx ! 2 - Y, idx ! 3 - X]
                        else elt dx idx))"
    by (rule setitem_patch[OF assms(1-3)]) simp
  show ?thesis
    unfolding iadd_item_def g bind_err_Inr a s by (rule eq)
qed

section \<open>Facts about sums over flattened indices\<close>

lemma sum_flat2:
  fixes G :: "nat \<Rightarrow> 'a::comm_monoid_add"
  shows "(\<Sum>k<a * m. G k) = (\<Sum>i<a. \<Sum>r<m. G (i * m + r))"
proof -
  have "(\<Sum>k<a * m. G k) = (\<Sum>i<a. sum G {i * m..<i * m + m})"
    by (rule sum.nat_group[symmetric])
  also have "\<dots> = (\<Sum>i<a. \<Sum>r<m. G (i * m + r))"
  proof (rule sum.cong)
    fix i
    have "sum G {0 + i * m..<m + i * m} = (\<Sum>r = 0..<m. G (r + i * m))"
      by (rule sum.shift_bounds_nat_ivl)
    then show "sum G {i * m..<i * m + m} = (\<Sum>r<m. G (i * m + r))"
      by (simp add: add.commute atLeast0LessThan)
  qed simp
  finally show ?thesis .
qed

lemma sum_flat3:
  fixes G :: "nat \<Rightarrow> 'a::comm_monoid_add"
  assumes "\<And>i j l. i < a \<Longrightarrow> j < b \<Longrightarrow> l < c \<Longrightarrow> G (ravel [a, b, c] [i, j, l]) = F i j l"
  shows "(\<Sum>k<prod_list [a, b, c]. G k) = (\<Sum>i<a. \<Sum>j<b. \<Sum>l<c. F i j l)"
proof -
  have "(\<Sum>k<a * (b * c). G k) = (\<Sum>i<a. \<Sum>r<b * c. G (i * (b * c) + r))"
    by (rule sum_flat2)
  also have "\<dots> = (\<Sum>i<a. \<Sum>j<b. \<Sum>l<c. G (i * (b * c) + (j * c + l)))"
    by (simp add: sum_flat2[of "\<lambda>r. G (_ + r)" b c])
  also have "\<dots> = (\<Sum>i<a. \<Sum>j<b. \<Sum>l<c. F i j l)"
    using assms by (intro sum.cong refl) simp
  finally show ?thesis by simp
qed

lemma elt_rows:
  assumes "shape A = n # t"
  shows "elt (A\<lparr>shape := [n, prod_list t]\<rparr>) [i, ravel t q] = elt A (i # q)"
  using assms by (simp add: elt_def)

lemma elt_unrows:
  assumes "shape A = [n, prod_list t]"
  shows "elt (A\<lparr>shape := n # t\<rparr>) (i # q) = elt A [i, ravel t q]"
  using assms by (simp add: elt_def)

lemma valid_idx3: "valid_idx [a, b, c] idx \<longleftrightarrow> (\<exists>i j k. idx = [i, j, k] \<and> i < a \<and> j < b \<and> k < c)"
  by (auto simp: valid_idx_Cons valid_idx_Nil)

section \<open>Conv2D: the forward pass\<close>

text \<open>One product of a flattened window with the flattened, transposed weights.\<close>

lemma conv_window_dot:
  fixes x w :: "('a::semiring_0) ndarray"
  assumes sx: "shape x = [bs, cin, iy, ix]" and sw: "shape w = [cout, cin, H, W]"
    and b: "b < bs" and c: "c < cout"
  shows "(\<Sum>l<prod_list [cin, H, W].
            elt ((tabulate [bs, cin, H, W]
                    (\<lambda>idx. elt x [idx ! 0, idx ! 1, Y + idx ! 2, X + idx ! 3]))
                 \<lparr>shape := [bs, prod_list [cin, H, W]]\<rparr>) [b, l]
            * elt (T (w\<lparr>shape := [cout, prod_list [cin, H, W]]\<rparr>)) [l, c])
         = conv2d_spec x w cin H W b c Y X"
proof -
  let ?t = "[cin, H, W]"
  let ?P = "tabulate [bs, cin, H, W] (\<lambda>idx. elt x [idx ! 0, idx ! 1, Y + idx ! 2, X + idx ! 3])"
  let ?G = "\<lambda>l. elt (?P\<lparr>shape := [bs, prod_list ?t]\<rparr>) [b, l]
                 * elt (T (w\<lparr>shape := [cout, prod_list ?t]\<rparr>)) [l, c]"
  have "(\<Sum>l<prod_list ?t. ?G l)
          = (\<Sum>ci<cin. \<Sum>h<H. \<Sum>v<W. elt x [b, ci, Y + h, X + v] * elt w [c, ci, h, v])"
  proof (rule sum_flat3)
    fix ci h v assume r: "ci < cin" "h < H" "v < W"
    let ?q = "[ci, h, v]"
    have vq: "valid_idx ?t ?q" using r by simp
    have l: "ravel ?t ?q < prod_list ?t" using vq by (rule ravel_less)
    have 1: "elt (?P\<lparr>shape := [bs, prod_list ?t]\<rparr>) [b, ravel ?t ?q] = elt ?P (b # ?q)"
      by (rule elt_rows) simp
    have 2: "elt ?P (b # ?q) = elt x [b, ci, Y + h, X + v]"
      using r b by (simp add: elt_tabulate)
    have 3: "elt (T (w\<lparr>shape := [cout, prod_list ?t]\<rparr>)) [ravel ?t ?q, c]
               = elt (w\<lparr>shape := [cout, prod_list ?t]\<rparr>) [c, ravel ?t ?q]"
      using c l by (intro elt_T2) simp_all
    have 4: "elt (w\<lparr>shape := [cout, prod_list ?t]\<rparr>) [c, ravel ?t ?q] = elt w (c # ?q)"
      using sw by (intro elt_rows) simp
    show "?G (ravel ?t ?q) = elt x [b, ci, Y + h, X + v] * elt w [c, ci, h, v]"
      unfolding 1 2 3 4 by simp
  qed
  then show ?thesis by (simp add: conv2d_spec_def)
qed


lemma Conv2D_forward_step_spec:
  fixes x w :: "('a::semiring_0) ndarray"
  assumes sx: "shape x = [bs, cin, iy, ix]" and sw: "shape w = [cout, cin, H, W]"
    and bs: "0 < bs" and Y: "Y + H \<le> iy" "Y < oy" and X: "X + W \<le> ix" "X < ox"
    and sr: "shape ret = [bs, cout, oy, ox]"
  shows "\<exists>ret'. Conv2D_forward_step x (T (w\<lparr>shape := [cout, prod_list [cin, H, W]]\<rparr>)) bs H W Y ret X
                  = Inr ret'
           \<and> shape ret' = [bs, cout, oy, ox] \<and> wf_array ret'
           \<and> (\<forall>b<bs. \<forall>c<cout. \<forall>y<oy. \<forall>z<ox.
                 elt ret' [b, c, y, z]
                   = (if y = Y \<and> z = X then conv2d_spec x w cin H W b c Y X
                      else elt ret [b, c, y, z]))"
proof -
  let ?K = "prod_list [cin, H, W]"
  let ?tw = "T (w\<lparr>shape := [cout, ?K]\<rparr>)"
  define P where "P = tabulate [bs, cin, H, W] (\<lambda>idx. elt x [idx ! 0, idx ! 1, Y + idx ! 2, X + idx ! 3])"
  define tx where "tx = P\<lparr>shape := [bs, ?K]\<rparr>"
  define V where "V = tabulate [bs, cout] (\<lambda>idx. \<Sum>l<?K. elt tx [idx ! 0, l] * elt ?tw [l, idx ! 1])"
  define ret' where "ret' = tabulate [bs, cout, oy, ox]
      (\<lambda>idx. if idx ! 2 = Y \<and> idx ! 3 = X then elt V [idx ! 0, idx ! 1] else elt ret idx)"
  have g: "getitem x (patch_items Y H X W) = Inr P"
    unfolding P_def using sx Y(1) X(1) by (rule getitem_patch)
  have r: "reshape P [int bs, -1] = Inr tx"
    unfolding tx_def using bs by (intro reshape_rows) (simp_all add: P_def)
  have d: "dot tx ?tw = Inr V"
    unfolding V_def by (intro dot_matrix) (simp_all add: tx_def)
  have s: "setitem ret [slice_all, slice_all, At Y, At X] V = Inr ret'"
    unfolding ret'_def using sr Y(2) X(2) by (intro setitem_point) (simp_all add: V_def)
  have st: "Conv2D_forward_step x ?tw bs H W Y ret X = Inr ret'"
    unfolding Conv2D_forward_step_def g bind_err_Inr r d s ..
  have v: "elt V [b, c] = conv2d_spec x w cin H W b c Y X" if "b < bs" "c < cout" for b c
    using that conv_window_dot[OF sx sw that, of Y X]
    by (simp add: V_def elt_tabulate tx_def P_def)
  have e: "elt ret' [b, c, y, z]
             = (if y = Y \<and> z = X then conv2d_spec x w cin H W b c Y X else elt ret [b, c, y, z])"
    if "b < bs" "c < cout" "y < oy" "z < ox" for b c y z
    using that v[OF that(1,2)] by (simp add: ret'_def elt_tabulate)
  have "shape ret' = [bs, cout, oy, ox]" "wf_array ret'" by (simp_all add: ret'_def)
  with st e show ?thesis by blast
qed


lemma Conv2D_forward_row:
  fixes x w :: "('a::semiring_0) ndarray"
  assumes sx: "shape x = [bs, cin, iy, ix]" and sw: "shape w = [cout, cin, H, W]"
    and bs: "0 < bs" and Y: "Y + H \<le> iy" "Y < oy" and X: "\<And>X. X < ox \<Longrightarrow> X + W \<le> ix"
    and sr: "shape ret = [bs, cout, oy, ox]" "wf_array ret"
  shows "\<exists>ret'. fold_err (Conv2D_forward_step x (T (w\<lparr>shape := [cout, prod_list [cin, H, W]]\<rparr>)) bs H W Y)
                   ret [0..<ox] = Inr ret'
           \<and> shape ret' = [bs, cout, oy, ox] \<and> wf_array ret'
           \<and> (\<forall>b<bs. \<forall>c<cout. \<forall>y<oy. \<forall>z<ox.
                 elt ret' [b, c, y, z]
                   = (if y = Y then conv2d_spec x w cin H W b c Y z else elt ret [b, c, y, z]))"
proof -
  let ?f = "Conv2D_forward_step x (T (w\<lparr>shape := [cout, prod_list [cin, H, W]]\<rparr>)) bs H W Y"
  define I where "I = (\<lambda>xs r. shape r = [bs, cout, oy, ox] \<and> wf_array r
      \<and> (\<forall>b<bs. \<forall>c<cout. \<forall>y<oy. \<forall>z<ox.
            elt r [b, c, y, z]
              = (if y = Y \<and> z \<in> set xs then conv2d_spec x w cin H W b c Y z
                 else elt ret [b, c, y, z])))"
  have "\<exists>s'. fold_err ?f ret [0..<ox] = Inr s' \<and> I [0..<ox] s'"
  proof (rule fold_err_invariant)
    show "I [] ret" using sr by (simp add: I_def)
  next
    fix ys X zs s
    assume inv: "I ys s" and split: "[0..<ox] = ys @ X # zs"
    from upt_split_less[OF split] have Xl: "X < ox" by simp
    from inv have ss: "shape s = [bs, cout, oy, ox]" by (simp add: I_def)
    from Conv2D_forward_step_spec[OF sx sw bs Y X[OF Xl] Xl ss]
    obtain s' where s': "?f s X = Inr s'" "shape s' = [bs, cout, oy, ox]" "wf_array s'"
      and e: "\<forall>b<bs. \<forall>c<cout. \<forall>y<oy. \<forall>z<ox.
                 elt s' [b, c, y, z]
                   = (if y = Y \<and> z = X then conv2d_spec x w cin H W b c Y X
                      else elt s [b, c, y, z])"
      by blast
    have "I (ys @ [X]) s'"
      unfolding I_def using s'(2,3) e inv by (auto simp: I_def)
    with s'(1) show "\<exists>s'. ?f s X = Inr s' \<and> I (ys @ [X]) s'" by blast
  qed
  then show ?thesis by (auto simp: I_def)
qed

lemma Conv2D_forward_loops:
  fixes x w :: "('a::semiring_0) ndarray"
  assumes sx: "shape x = [bs, cin, iy, ix]" and sw: "shape w = [cout, cin, H, W]"
    and bs: "0 < bs" and Y: "\<And>Y. Y < oy \<Longrightarrow> Y + H \<le> iy" and X: "\<And>X. X < ox \<Longrightarrow> X + W \<le> ix"
    and sr: "shape ret = [bs, cout, oy, ox]" "wf_array ret"
  shows "\<exists>ret'. fold_err (\<lambda>ret Y. fold_err
                     (Conv2D_forward_step x (T (w\<lparr>shape := [cout, prod_list [cin, H, W]]\<rparr>)) bs H W Y)
                     ret [0..<ox])
                   ret [0..<oy] = Inr ret'
           \<and> shape ret' = [bs, cout, oy, ox] \<and> wf_array ret'
           \<and> (\<forall>b<bs. \<forall>c<cout. \<forall>y<oy. \<forall>z<ox.
                 elt ret' [b, c, y, z] = conv2d_spec x w cin H W b c y z)"
proof -
  let ?f = "\<lambda>ret Y. fold_err
              (Conv2D_forward_step x (T (w\<lparr>shape := [cout, prod_list [cin, H, W]]\<rparr>)) bs H W Y)
              ret [0..<ox]"
  define I where "I = (\<lambda>ys r. shape r = [bs, cout, oy, ox] \<and> wf_array r
      \<and> (\<forall>b<bs. \<forall>c<cout. \<forall>y<oy. \<forall>z<ox.
            elt r [b, c, y, z]
              = (if y \<in> set ys then conv2d_spec x w cin H W b c y z else elt ret [b, c, y, z])))"
  have "\<exists>s'. fold_err ?f ret [0..<oy] = Inr s' \<and> I [0..<oy] s'"
  proof (rule fold_err_invariant)
    show "I [] ret" using sr by (simp add: I_def)
  next
    fix ys Y' zs s
    assume inv: "I ys s" and split: "[0..<oy] = ys @ Y' # zs"
    from upt_split_less[OF split] have Yl: "Y' < oy" by simp
    from inv have ss: "shape s = [bs, cout, oy, ox]" "wf_array s" by (simp_all add: I_def)
    from Conv2D_forward_row[OF sx sw bs Y[OF Yl] Yl X ss]
    obtain s' where s': "?f s Y' = Inr s'" "shape s' = [bs, cout, oy, ox]" "wf_array s'"
      and e: "\<forall>b<bs. \<forall>c<cout. \<forall>y<oy. \<forall>z<ox.
                 elt s' [b, c, y, z]
                   = (if y = Y' then conv2d_spec x w cin H W b c Y' z else elt s [b, c, y, z])"
      by blast
    have "I (ys @ [Y']) s'"
      unfolding I_def using s'(2,3) e inv by (auto simp: I_def)
    with s'(1) show "\<exists>s'. ?f s Y' = Inr s' \<and> I (ys @ [Y']) s'" by blast
  qed
  then show ?thesis by (auto simp: I_def)
qed

lemma reshape_weights:
  fixes w :: "'a ndarray"
  assumes sw: "shape w = [cout, cin, H, W]" and wf: "wf_array w" and cout: "0 < cout"
  shows "reshape w [int cout, -1] = Inr (w\<lparr>shape := [cout, prod_list [cin, H, W]]\<rparr>)"
  using cout by (intro reshape_rows) (use sw wf in \<open>simp_all add: wf_array_def\<close>)

lemma Conv2D_forward_spec:
  fixes x w :: "('a::semiring_0) ndarray"
  assumes sx: "shape x = [bs, cin, iy, ix]" and sw: "shape w = [cout, cin, H, W]"
    and wf: "wf_array w" and bs: "0 < bs" and cout: "0 < cout" and H: "H \<le> iy" and W: "W \<le> ix"
  shows "\<exists>y. Conv2D_forward ctx x w = Inr (ctx @ [x, w], y)
           \<and> shape y = [bs, cout, iy + 1 - H, ix + 1 - W] \<and> wf_array y
           \<and> (\<forall>b<bs. \<forall>c<cout. \<forall>Y<iy + 1 - H. \<forall>X<ix + 1 - W.
                 elt y [b, c, Y, X] = conv2d_spec x w cin H W b c Y X)"
proof -
  define oy ox where "oy = iy + 1 - H" and "ox = ix + 1 - W"
  define ret0 :: "'a ndarray" where "ret0 = full_array [bs, cout, oy, ox] 0"
  have oi: "int iy - (int H - 1) = int oy" "int ix - (int W - 1) = int ox"
    using H W by (auto simp: oy_def ox_def)
  have z: "zeros [int bs, int cout, int oy, int ox] = Inr ret0"
    using zeros_nat[of "[bs, cout, oy, ox]"] by (simp add: ret0_def)
  have Yb: "Y + H \<le> iy" if "Y < oy" for Y using that by (simp add: oy_def)
  have Xb: "X + W \<le> ix" if "X < ox" for X using that by (simp add: ox_def)
  have "shape ret0 = [bs, cout, oy, ox]" "wf_array ret0"
    by (simp_all add: ret0_def full_array_def)
  from Conv2D_forward_loops[OF sx sw bs Yb Xb this]
  obtain y where y: "fold_err (\<lambda>ret Y. fold_err
                     (Conv2D_forward_step x (T (w\<lparr>shape := [cout, prod_list [cin, H, W]]\<rparr>)) bs H W Y)
                     ret [0..<ox]) ret0 [0..<oy] = Inr y"
    and sy: "shape y = [bs, cout, oy, ox]" "wf_array y"
    and e: "\<forall>b<bs. \<forall>c<cout. \<forall>y'<oy. \<forall>z<ox. elt y [b, c, y', z] = conv2d_spec x w cin H W b c y' z"
    by blast
  have "Conv2D_forward ctx x w = Inr (ctx @ [x, w], y)"
    unfolding Conv2D_forward_def
    using y by (simp add: sw sx reshape_weights[OF sw wf cout] oi z save_for_backward_def)
  with sy e show ?thesis unfolding oy_def ox_def by blast
qed

section \<open>FastConv2D: the forward pass\<close>

lemma elt_im2col:
  assumes sx: "shape x = [bs, cin, iy, ix]" and H: "H \<le> iy" and W: "W \<le> ix"
  shows "\<exists>tx. im2col x H W = Inr tx
           \<and> shape tx = [prod_list [bs, iy + 1 - H, ix + 1 - W], prod_list [cin, H, W]]
           \<and> wf_array tx
           \<and> (\<forall>b<bs. \<forall>Y<iy + 1 - H. \<forall>X<ix + 1 - W. \<forall>ci<cin. \<forall>h<H. \<forall>v<W.
                 elt tx [ravel [bs, iy + 1 - H, ix + 1 - W] [b, Y, X], ravel [cin, H, W] [ci, h, v]]
                   = elt x [b, ci, Y + h, X + v])"
proof -
  define oy ox where "oy = iy + 1 - H" and "ox = ix + 1 - W"
  define T6 where "T6 = tabulate [bs, oy, ox, cin, H, W]
      (\<lambda>idx. elt x [idx ! 0, idx ! 3, idx ! 1 + idx ! 4, idx ! 2 + idx ! 5])"
  define tx where "tx = T6\<lparr>shape := [prod_list [bs, oy, ox], prod_list [cin, H, W]]\<rparr>"
  have i: "im2col x H W = Inr tx"
    using H W by (simp add: im2col_def sx Let_def tx_def T6_def oy_def ox_def mult.assoc)
  have e: "elt tx [ravel [bs, oy, ox] [b, Y, X], ravel [cin, H, W] [ci, h, v]]
          = elt x [b, ci, Y + h, X + v]"
    if r: "b < bs" "Y < oy" "X < ox" "ci < cin" "h < H" "v < W" for b Y X ci h v
  proof -
    have "elt tx [ravel [bs, oy, ox] [b, Y, X], ravel [cin, H, W] [ci, h, v]]
          = elt T6 ([b, Y, X] @ [ci, h, v])"
      unfolding tx_def using r by (intro elt_flatten) (simp_all add: T6_def)
    also have "\<dots> = elt x [b, ci, Y + h, X + v]"
      using r by (simp add: T6_def elt_tabulate)
    finally show ?thesis .
  qed
  have "wf_array tx" by (simp add: tx_def T6_def wf_array_def)
  moreover have "shape tx = [prod_list [bs, oy, ox], prod_list [cin, H, W]]"
    by (simp add: tx_def)
  ultimately show ?thesis
    using i e unfolding oy_def ox_def by blast
qed

lemma FastConv2D_forward_spec:
  fixes x w :: "('a::semiring_0) ndarray"
  assumes sx: "shape x = [bs, cin, iy, ix]" and sw: "shape w = [cout, cin, H, W]"
    and wf: "wf_array w" and cout: "0 < cout" and H: "H \<le> iy" and W: "W \<le> ix"
    and tx: "im2col x H W = Inr tx"
  shows "\<exists>y. FastConv2D_forward im2col ctx x w = Inr (ctx @ [tx, w], y)
           \<and> shape y = [bs, cout, iy + 1 - H, ix + 1 - W] \<and> wf_array y
           \<and> (\<forall>b<bs. \<forall>c<cout. \<forall>Y<iy + 1 - H. \<forall>X<ix + 1 - W.
                 elt y [b, c, Y, X] = conv2d_spec x w cin H W b c Y X)"
proof -
  define oy ox where "oy = iy + 1 - H" and "ox = ix + 1 - W"
  define K where "K = prod_list [cin, H, W]"
  define R where "R = prod_list [bs, oy, ox]"
  from elt_im2col[OF sx H W] tx have stx: "shape tx = [R, K]"
    and etx: "\<And>b Y X ci h v. b < bs \<Longrightarrow> Y < oy \<Longrightarrow> X < ox \<Longrightarrow> ci < cin \<Longrightarrow> h < H \<Longrightarrow> v < W \<Longrightarrow>
                 elt tx [ravel [bs, oy, ox] [b, Y, X], ravel [cin, H, W] [ci, h, v]]
                   = elt x [b, ci, Y + h, X + v]"
    unfolding oy_def ox_def K_def R_def by auto
  define w2 where "w2 = w\<lparr>shape := [cout, K]\<rparr>"
  define tw where "tw = T w2"
  have rw: "reshape w [int cout, -1] = Inr w2"
    unfolding w2_def K_def using sw wf cout by (rule reshape_weights)
  define m where "m = tabulate [R, cout] (\<lambda>idx. \<Sum>l<K. elt tx [idx ! 0, l] * elt tw [l, idx ! 1])"
  have d: "dot tx tw = Inr m"
    unfolding m_def using stx by (intro dot_matrix) (simp_all add: tw_def w2_def)
  define m4 where "m4 = m\<lparr>shape := [bs, oy, ox, cout]\<rparr>"
  have rm: "reshape m [int bs, int oy, int ox, int cout] = Inr m4"
    unfolding m4_def by (rule reshape_ints) (simp_all add: m_def R_def)
  define y where "y = tabulate [bs, cout, oy, ox] (\<lambda>idx. elt m4 [idx ! 0, idx ! 2, idx ! 3, idx ! 1])"
  have mv: "moveaxis m4 [0, 1, 2, 3] [0, 2, 3, 1] = Inr y"
    unfolding y_def by (rule moveaxis_channels_first) (simp add: m4_def)
  have oi: "int iy - (int H - 1) = int oy" "int ix - (int W - 1) = int ox"
    using H W by (auto simp: oy_def ox_def)
  have f: "FastConv2D_forward im2col ctx x w = Inr (ctx @ [tx, w], y)"
    unfolding FastConv2D_forward_def
    using mv by (simp add: sw sx rw tw_def[symmetric] tx d oi rm save_for_backward_def)
  have e: "elt y [b, c, Y, X] = conv2d_spec x w cin H W b c Y X"
    if r: "b < bs" "c < cout" "Y < oy" "X < ox" for b c Y X
  proof -
    let ?r = "ravel [bs, oy, ox] [b, Y, X]"
    have rl: "?r < R" unfolding R_def using r by (intro ravel_less) simp
    have "elt y [b, c, Y, X] = elt m4 [b, Y, X, c]"
      using r by (simp add: y_def elt_tabulate)
    also have "\<dots> = elt m [?r, ravel [cout] [c]]"
      unfolding m4_def using r elt_unflatten[of m "[bs, oy, ox]" "[cout]" "[b, Y, X]" "[c]"]
      by (simp add: m_def R_def)
    also have "\<dots> = (\<Sum>l<K. elt tx [?r, l] * elt tw [l, c])"
      using rl r by (simp add: m_def elt_tabulate)
    also have "\<dots> = (\<Sum>ci<cin. \<Sum>h<H. \<Sum>v<W. elt x [b, ci, Y + h, X + v] * elt w [c, ci, h, v])"
      unfolding K_def
    proof (rule sum_flat3)
      fix ci h v assume q: "ci < cin" "h < H" "v < W"
      let ?q = "[ci, h, v]"
      have l: "ravel [cin, H, W] ?q < K" unfolding K_def using q by (intro ravel_less) simp
      have "elt tw [ravel [cin, H, W] ?q, c] = elt w2 [c, ravel [cin, H, W] ?q]"
        unfolding tw_def using r l by (intro elt_T2) (simp_all add: w2_def)
      also have "\<dots> = elt w (c # ?q)"
        unfolding w2_def K_def using sw by (intro elt_rows) simp
      finally show "elt tx [?r, ravel [cin, H, W] ?q] * elt tw [ravel [cin, H, W] ?q, c]
                      = elt x [b, ci, Y + h, X + v] * elt w [c, ci, h, v]"
        using etx[OF r(1,3,4) q] by simp
    qed
    finally show ?thesis by (simp add: conv2d_spec_def)
  qed
  have "shape y = [bs, cout, oy, ox]" "wf_array y" by (simp_all add: y_def)
  with f e show ?thesis unfolding oy_def ox_def by blast
qed

section \<open>Conv2D: the backward pass\<close>

lemma Conv2D_backward_step_spec:
  fixes x w g :: "('a::semiring_0) ndarray"
  assumes sx: "shape x = [bs, cin, iy, ix]" and sw: "shape w = [cout, cin, H, W]"
    and sg: "shape g = [bs, cout, oy, ox]"
    and bs: "0 < bs" and Y: "Y + H \<le> iy" "Y < oy" and X: "X + W \<le> ix" "X < ox"
    and sdx: "shape dx = [bs, cin, iy, ix]" and sdw: "shape dw = [cout, cin, H, W]"
  shows "\<exists>dx' dw'.
           Conv2D_backward_step g x (w\<lparr>shape := [cout, prod_list [cin, H, W]]\<rparr>) H W Y (dx, dw) X
             = Inr (dx', dw')
         \<and> shape dx' = [bs, cin, iy, ix] \<and> wf_array dx'
         \<and> shape dw' = [cout, cin, H, W] \<and> wf_array dw'
         \<and> (\<forall>b<bs. \<forall>ci<cin. \<forall>y<iy. \<forall>z<ix.
               elt dx' [b, ci, y, z] = elt dx [b, ci, y, z] + window_dx w g cout H W Y X b ci y z)
         \<and> (\<forall>c<cout. \<forall>ci<cin. \<forall>h<H. \<forall>v<W.
               elt dw' [c, ci, h, v] = elt dw [c, ci, h, v] + window_dw x g bs Y X c ci h v)"
proof -
  let ?t = "[cin, H, W]"
  define K where "K = prod_list ?t"
  define w2 where "w2 = w\<lparr>shape := [cout, K]\<rparr>"
  define gg where "gg = tabulate [bs, cout] (\<lambda>idx. elt g [idx ! 0, idx ! 1, Y, X])"
  define P where "P = tabulate [bs, cin, H, W] (\<lambda>idx. elt x [idx ! 0, idx ! 1, Y + idx ! 2, X + idx ! 3])"
  define tx where "tx = P\<lparr>shape := [bs, K]\<rparr>"
  define m1 where "m1 = tabulate [cout, K] (\<lambda>idx. \<Sum>b<bs. elt (T gg) [idx ! 0, b] * elt tx [b, idx ! 1])"
  define m2 where "m2 = m1\<lparr>shape := [cout, cin, H, W]\<rparr>"
  define dw' where "dw' = tabulate [cout, cin, H, W] (\<lambda>idx. elt dw idx + elt m2 idx)"
  define m3 where "m3 = tabulate [bs, K] (\<lambda>idx. \<Sum>c<cout. elt gg [idx ! 0, c] * elt w2 [c, idx ! 1])"
  define m4 where "m4 = m3\<lparr>shape := [bs, cin, H, W]\<rparr>"
  define dx' where "dx' = tabulate [bs, cin, iy, ix]
      (\<lambda>idx. if Y \<le> idx ! 2 \<and> idx ! 2 < Y + H \<and> X \<le> idx ! 3 \<and> idx ! 3 < X + W
             then elt dx idx + elt m4 [idx ! 0, idx ! 1, idx ! 2 - Y, idx ! 3 - X]
             else elt dx idx)"
  have 1: "getitem g [slice_all, slice_all, At Y, At X] = Inr gg"
    unfolding gg_def using sg Y(2) X(2) by (rule getitem_point)
  have 2: "getitem x (patch_items Y H X W) = Inr P"
    unfolding P_def using sx Y(1) X(1) by (rule getitem_patch)
  have 3: "reshape P [int bs, -1] = Inr tx"
    unfolding tx_def K_def using bs by (intro reshape_rows) (simp_all add: P_def)
  have 4: "dot (T gg) tx = Inr m1"
    unfolding m1_def by (intro dot_matrix) (simp_all add: gg_def tx_def)
  have 5: "reshape m1 [int cout, int cin, int H, int W] = Inr m2"
    unfolding m2_def by (rule reshape_ints) (simp_all add: m1_def K_def)
  have 6: "iadd dw m2 = Inr dw'"
    unfolding dw'_def using sdw by (intro iadd_same) (simp_all add: m2_def)
  have 7: "dot gg w2 = Inr m3"
    unfolding m3_def by (intro dot_matrix) (simp_all add: gg_def w2_def)
  have 8: "reshape m3 [int bs, int cin, int H, int W] = Inr m4"
    unfolding m4_def by (rule reshape_ints) (simp_all add: m3_def K_def)
  have 9: "iadd_item dx (patch_items Y H X W) m4 = Inr dx'"
    unfolding dx'_def using sdx Y(1) X(1) by (intro iadd_item_patch) (simp_all add: m4_def)
  have st: "Conv2D_backward_step g x w2 H W Y (dx, dw) X = Inr (dx', dw')"
    unfolding Conv2D_backward_step_def
    using 5 8 by (simp add: 1 2 sx sdx sdw 3 4 6 7 9)
  have edw: "elt dw' [c, ci, h, v] = elt dw [c, ci, h, v] + window_dw x g bs Y X c ci h v"
    if r: "c < cout" "ci < cin" "h < H" "v < W" for c ci h v
  proof -
    let ?q = "[ci, h, v]"
    have l: "ravel ?t ?q < K" unfolding K_def using r by (intro ravel_less) simp
    have "elt m2 (c # ?q) = elt m1 [c, ravel ?t ?q]"
      unfolding m2_def by (rule elt_unrows) (simp add: m1_def K_def)
    also have "\<dots> = (\<Sum>b<bs. elt (T gg) [c, b] * elt tx [b, ravel ?t ?q])"
      using r l by (simp add: m1_def elt_tabulate)
    also have "\<dots> = (\<Sum>b<bs. elt g [b, c, Y, X] * elt x [b, ci, Y + h, X + v])"
    proof (rule sum.cong)
      fix b assume "b \<in> {..<bs}"
      then have b: "b < bs" by simp
      have "elt (T gg) [c, b] = elt gg [b, c]"
        using b r by (intro elt_T2) (simp_all add: gg_def)
      moreover have "elt gg [b, c] = elt g [b, c, Y, X]"
        using b r by (simp add: gg_def elt_tabulate)
      moreover have "elt tx [b, ravel ?t ?q] = elt P (b # ?q)"
        unfolding tx_def K_def by (rule elt_rows) (simp add: P_def)
      moreover have "elt P (b # ?q) = elt x [b, ci, Y + h, X + v]"
        using b r by (simp add: P_def elt_tabulate)
      ultimately show "elt (T gg) [c, b] * elt tx [b, ravel ?t ?q]
                         = elt g [b, c, Y, X] * elt x [b, ci, Y + h, X + v]"
        by simp
    qed simp
    finally have "elt m2 [c, ci, h, v] = window_dw x g bs Y X c ci h v"
      by (simp add: window_dw_def)
    then show ?thesis using r by (simp add: dw'_def elt_tabulate)
  qed
  have em4: "elt m4 [b, ci, h, v] = (\<Sum>c<cout. elt g [b, c, Y, X] * elt w [c, ci, h, v])"
    if r: "b < bs" "ci < cin" "h < H" "v < W" for b ci h v
  proof -
    let ?q = "[ci, h, v]"
    have l: "ravel ?t ?q < K" unfolding K_def using r by (intro ravel_less) simp
    have "elt m4 (b # ?q) = elt m3 [b, ravel ?t ?q]"
      unfolding m4_def by (rule elt_unrows) (simp add: m3_def K_def)
    also have "\<dots> = (\<Sum>c<cout. elt gg [b, c] * elt w2 [c, ravel ?t ?q])"
      using r l by (simp add: m3_def elt_tabulate)
    also have "\<dots> = (\<Sum>c<cout. elt g [b, c, Y, X] * elt w [c, ci, h, v])"
    proof (rule sum.cong)
      fix c assume "c \<in> {..<cout}"
      then have c: "c < cout" by simp
      have "elt gg [b, c] = elt g [b, c, Y, X]"
        using c r by (simp add: gg_def elt_tabulate)
      moreover have "elt w2 [c, ravel ?t ?q] = elt w (c # ?q)"
        unfolding w2_def K_def using sw by (intro elt_rows) simp
      ultimately show "elt gg [b, c] * elt w2 [c, ravel ?t ?q]
                         = elt g [b, c, Y, X] * elt w [c, ci, h, v]"
        by simp
    qed simp
    finally show ?thesis by simp
  qed
  have edx: "elt dx' [b, ci, y, z] = elt dx [b, ci, y, z] + window_dx w g cout H W Y X b ci y z"
    if r: "b < bs" "ci < cin" "y < iy" "z < ix" for b ci y z
  proof (cases "Y \<le> y \<and> y < Y + H \<and> X \<le> z \<and> z < X + W")
    case True
    then have "elt m4 [b, ci, y - Y, z - X]
                 = (\<Sum>c<cout. elt g [b, c, Y, X] * elt w [c, ci, y - Y, z - X])"
      using r by (intro em4) auto
    with True r show ?thesis by (simp add: dx'_def elt_tabulate window_dx_def)
  next
    case False
    with r show ?thesis by (auto simp: dx'_def elt_tabulate window_dx_def)
  qed
  have "shape dx' = [bs, cin, iy, ix]" "wf_array dx'" "shape dw' = [cout, cin, H, W]" "wf_array dw'"
    by (simp_all add: dx'_def dw'_def)
  with st edx edw show ?thesis unfolding w2_def K_def by blast
qed


lemma Conv2D_backward_row:
  fixes x w g :: "('a::semiring_0) ndarray"
  assumes sx: "shape x = [bs, cin, iy, ix]" and sw: "shape w = [cout, cin, H, W]"
    and sg: "shape g = [bs, cout, oy, ox]"
    and bs: "0 < bs" and Y: "Y + H \<le> iy" "Y < oy" and X: "\<And>X. X < ox \<Longrightarrow> X + W \<le> ix"
    and sdx: "shape dx = [bs, cin, iy, ix]" "wf_array dx"
    and sdw: "shape dw = [cout, cin, H, W]" "wf_array dw"
  shows "\<exists>dx' dw'.
           fold_err (Conv2D_backward_step g x (w\<lparr>shape := [cout, prod_list [cin, H, W]]\<rparr>) H W Y)
             (dx, dw) [0..<ox] = Inr (dx', dw')
         \<and> shape dx' = [bs, cin, iy, ix] \<and> wf_array dx'
         \<and> shape dw' = [cout, cin, H, W] \<and> wf_array dw'
         \<and> (\<forall>b<bs. \<forall>ci<cin. \<forall>y<iy. \<forall>z<ix.
               elt dx' [b, ci, y, z]
                 = elt dx [b, ci, y, z] + (\<Sum>X<ox. window_dx w g cout H W Y X b ci y z))
         \<and> (\<forall>c<cout. \<forall>ci<cin. \<forall>h<H. \<forall>v<W.
               elt dw' [c, ci, h, v]
                 = elt dw [c, ci, h, v] + (\<Sum>X<ox. window_dw x g bs Y X c ci h v))"
proof -
  let ?f = "Conv2D_backward_step g x (w\<lparr>shape := [cout, prod_list [cin, H, W]]\<rparr>) H W Y"
  define I where "I = (\<lambda>xs acc. case acc of (dx', dw') \<Rightarrow>
        shape dx' = [bs, cin, iy, ix] \<and> wf_array dx'
      \<and> shape dw' = [cout, cin, H, W] \<and> wf_array dw'
      \<and> (\<forall>b<bs. \<forall>ci<cin. \<forall>y<iy. \<forall>z<ix.
            elt dx' [b, ci, y, z]
              = elt dx [b, ci, y, z] + sum_list (map (\<lambda>X. window_dx w g cout H W Y X b ci y z) xs))
      \<and> (\<forall>c<cout. \<forall>ci<cin. \<forall>h<H. \<forall>v<W.
            elt dw' [c, ci, h, v]
              = elt dw [c, ci, h, v] + sum_list (map (\<lambda>X. window_dw x g bs Y X c ci h v) xs)))"
  have "\<exists>s'. fold_err ?f (dx, dw) [0..<ox] = Inr s' \<and> I [0..<ox] s'"
  proof (rule fold_err_invariant)
    show "I [] (dx, dw)" using sdx sdw by (simp add: I_def)
  next
    fix ys X' zs s
    assume inv: "I ys s" and split: "[0..<ox] = ys @ X' # zs"
    obtain dx1 dw1 where s: "s = (dx1, dw1)" by (cases s)
    from upt_split_less[OF split] have Xl: "X' < ox" by simp
    from inv s have s1: "shape dx1 = [bs, cin, iy, ix]" "shape dw1 = [cout, cin, H, W]"
      by (simp_all add: I_def)
    from Conv2D_backward_step_spec[OF sx sw sg bs Y X[OF Xl] Xl s1]
    obtain dx2 dw2 where st: "?f (dx1, dw1) X' = Inr (dx2, dw2)"
      and sh: "shape dx2 = [bs, cin, iy, ix]" "wf_array dx2"
              "shape dw2 = [cout, cin, H, W]" "wf_array dw2"
      and e1: "\<forall>b<bs. \<forall>ci<cin. \<forall>y<iy. \<forall>z<ix.
               elt dx2 [b, ci, y, z] = elt dx1 [b, ci, y, z] + window_dx w g cout H W Y X' b ci y z"
      and e2: "\<forall>c<cout. \<forall>ci<cin. \<forall>h<H. \<forall>v<W.
               elt dw2 [c, ci, h, v] = elt dw1 [c, ci, h, v] + window_dw x g bs Y X' c ci h v"
      by blast
    have "I (ys @ [X']) (dx2, dw2)"
      using sh e1 e2 inv unfolding I_def s by (simp add: add.assoc)
    with st s show "\<exists>s'. ?f s X' = Inr s' \<and> I (ys @ [X']) s'" by blast
  qed
  then show ?thesis by (auto simp: I_def sum_list_upt)
qed

lemma Conv2D_backward_loops:
  fixes x w g :: "('a::semiring_0) ndarray"
  assumes sx: "shape x = [bs, cin, iy, ix]" and sw: "shape w = [cout, cin, H, W]"
    and sg: "shape g = [bs, cout, oy, ox]"
    and bs: "0 < bs" and Y: "\<And>Y. Y < oy \<Longrightarrow> Y + H \<le> iy" and X: "\<And>X. X < ox \<Longrightarrow> X + W \<le> ix"
    and sdx: "shape dx = [bs, cin, iy, ix]" "wf_array dx"
    and sdw: "shape dw = [cout, cin, H, W]" "wf_array dw"
  shows "\<exists>dx' dw'.
           fold_err (\<lambda>acc Y. fold_err
               (Conv2D_backward_step g x (w\<lparr>shape := [cout, prod_list [cin, H, W]]\<rparr>) H W Y)
               acc [0..<ox])
             (dx, dw) [0..<oy] = Inr (dx', dw')
         \<and> shape dx' = [bs, cin, iy, ix] \<and> wf_array dx'
         \<and> shape dw' = [cout, cin, H, W] \<and> wf_array dw'
         \<and> (\<forall>b<bs. \<forall>ci<cin. \<forall>y<iy. \<forall>z<ix.
               elt dx' [b, ci, y, z]
                 = elt dx [b, ci, y, z] + (\<Sum>Y<oy. \<Sum>X<ox. window_dx w g cout H W Y X b ci y z))
         \<and> (\<forall>c<cout. \<forall>ci<cin. \<forall>h<H. \<forall>v<W.
               elt dw' [c, ci, h, v]
                 = elt dw [c, ci, h, v] + (\<Sum>Y<oy. \<Sum>X<ox. window_dw x g bs Y X c ci h v))"
proof -
  let ?f = "\<lambda>acc Y. fold_err
               (Conv2D_backward_step g x (w\<lparr>shape := [cout, prod_list [cin, H, W]]\<rparr>) H W Y)
               acc [0..<ox]"
  define I where "I = (\<lambda>ys acc. case acc of (dx', dw') \<Rightarrow>
        shape dx' = [bs, cin, iy, ix] \<and> wf_array dx'
      \<and> shape dw' = [cout, cin, H, W] \<and> wf_array dw'
      \<and> (\<forall>b<bs. \<forall>ci<cin. \<forall>y<iy. \<forall>z<ix.
            elt dx' [b, ci, y, z]
              = elt dx [b, ci, y, z]
                + sum_list (map (\<lambda>Y. \<Sum>X<ox. window_dx w g cout H W Y X b ci y z) ys))
      \<and> (\<forall>c<cout. \<forall>ci<cin. \<forall>h<H. \<forall>v<W.
            elt dw' [c, ci, h, v]
              = elt dw [c, ci, h, v]
                + sum_list (map (\<lambda>Y. \<Sum>X<ox. window_dw x g bs Y X c ci h v) ys)))"
  have "\<exists>s'. fold_err ?f (dx, dw) [0..<oy] = Inr s' \<and> I [0..<oy] s'"
  proof (rule fold_err_invariant)
    show "I [] (dx, dw)" using sdx sdw by (simp add: I_def)
  next
    fix ys Y' zs s
    assume inv: "I ys s" and split: "[0..<oy] = ys @ Y' # zs"
    obtain dx1 dw1 where s: "s = (dx1, dw1)" by (cases s)
    from upt_split_less[OF split] have Yl: "Y' < oy" by simp
    from inv s have s1: "shape dx1 = [bs, cin, iy, ix]" "wf_array dx1"
                        "shape dw1 = [cout, cin, H, W]" "wf_array dw1"
      by (simp_all add: I_def)
    from Conv2D_backward_row[OF sx sw sg bs Y[OF Yl] Yl X s1]
    obtain dx2 dw2 where st: "?f (dx1, dw1) Y' = Inr (dx2, dw2)"
      and sh: "shape dx2 = [bs, cin, iy, ix]" "wf_array dx2"
              "shape dw2 = [cout, cin, H, W]" "wf_array dw2"
      and e1: "\<forall>b<bs. \<forall>ci<cin. \<forall>y<iy. \<forall>z<ix.
               elt dx2 [b, ci, y, z]
                 = elt dx1 [b, ci, y, z] + (\<Sum>X<ox. window_dx w g cout H W Y' X b ci y z)"
      and e2: "\<forall>c<cout. \<forall>ci<cin. \<forall>h<H. \<forall>v<W.
               elt dw2 [c, ci, h, v]
                 = elt dw1 [c, ci, h, v] + (\<Sum>X<ox. window_dw x g bs Y' X c ci h v)"
      by blast
    have "I (ys @ [Y']) (dx2, dw2)"
      using sh e1 e2 inv unfolding I_def s by (simp add: add.assoc)
    with st s show "\<exists>s'. ?f s Y' = Inr s' \<and> I (ys @ [Y']) s'" by blast
  qed
  then show ?thesis by (auto simp: I_def sum_list_upt)
qed

lemma elt_zeros_like: "valid_idx (shape A) idx \<Longrightarrow> elt (zeros_like A) idx = 0"
  by (simp add: zeros_like_def elt_full_array)

lemma shape_zeros_like [simp]: "shape (zeros_like A) = shape A"
  by (simp add: zeros_like_def full_array_def)

lemma wf_zeros_like [simp]: "wf_array (zeros_like A)"
  by (simp add: zeros_like_def full_array_def)

lemma Conv2D_backward_spec:
  fixes x w g :: "('a::semiring_0) ndarray"
  assumes sx: "shape x = [bs, cin, iy, ix]" and sw: "shape w = [cout, cin, H, W]"
    and wf: "wf_array w" and bs: "0 < bs" and cout: "0 < cout" and H: "H \<le> iy" and W: "W \<le> ix"
    and sg: "shape g = [bs, cout, iy + 1 - H, ix + 1 - W]"
  shows "\<exists>dx dw. Conv2D_backward [x, w] g = Inr (Some dx, Some dw)
           \<and> shape dx = [bs, cin, iy, ix] \<and> wf_array dx
           \<and> shape dw = [cout, cin, H, W] \<and> wf_array dw
           \<and> (\<forall>b<bs. \<forall>ci<cin. \<forall>y<iy. \<forall>z<ix.
                 elt dx [b, ci, y, z]
                   = conv2d_dx_spec w g cout (iy + 1 - H) (ix + 1 - W) H W b ci y z)
           \<and> (\<forall>c<cout. \<forall>ci<cin. \<forall>h<H. \<forall>v<W.
                 elt dw [c, ci, h, v]
                   = conv2d_dw_spec x g bs (iy + 1 - H) (ix + 1 - W) c ci h v)"
proof -
  define oy ox where "oy = iy + 1 - H" and "ox = ix + 1 - W"
  have sg': "shape g = [bs, cout, oy, ox]" using sg by (simp add: oy_def ox_def)
  have Yb: "Y + H \<le> iy" if "Y < oy" for Y using that by (simp add: oy_def)
  have Xb: "X + W \<le> ix" if "X < ox" for X using that by (simp add: ox_def)
  have z: "shape (zeros_like x :: 'a ndarray) = [bs, cin, iy, ix]" "wf_array (zeros_like x :: 'a ndarray)"
          "shape (zeros_like w :: 'a ndarray) = [cout, cin, H, W]" "wf_array (zeros_like w :: 'a ndarray)"
    using sx sw by simp_all
  from Conv2D_backward_loops[OF sx sw sg' bs Yb Xb z]
  obtain dx dw where
    l: "fold_err (\<lambda>acc Y. fold_err
               (Conv2D_backward_step g x (w\<lparr>shape := [cout, prod_list [cin, H, W]]\<rparr>) H W Y)
               acc [0..<ox])
             (zeros_like x, zeros_like w) [0..<oy] = Inr (dx, dw)"
    and sh: "shape dx = [bs, cin, iy, ix]" "wf_array dx" "shape dw = [cout, cin, H, W]" "wf_array dw"
    and e1: "\<forall>b<bs. \<forall>ci<cin. \<forall>y<iy. \<forall>z<ix.
               elt dx [b, ci, y, z]
                 = elt (zeros_like x :: 'a ndarray) [b, ci, y, z]
                   + (\<Sum>Y<oy. \<Sum>X<ox. window_dx w g cout H W Y X b ci y z)"
    and e2: "\<forall>c<cout. \<forall>ci<cin. \<forall>h<H. \<forall>v<W.
               elt dw [c, ci, h, v]
                 = elt (zeros_like w :: 'a ndarray) [c, ci, h, v]
                   + (\<Sum>Y<oy. \<Sum>X<ox. window_dw x g bs Y X c ci h v)"
    by blast
  have b: "Conv2D_backward [x, w] g = Inr (Some dx, Some dw)"
    unfolding Conv2D_backward_def
    using l by (simp add: sg' sw reshape_weights[OF sw wf cout])
  have dx: "elt dx [b, ci, y, z] = conv2d_dx_spec w g cout oy ox H W b ci y z"
    if "b < bs" "ci < cin" "y < iy" "z < ix" for b ci y z
  proof -
    have "elt (zeros_like x :: 'a ndarray) [b, ci, y, z] = 0"
      using that sx by (intro elt_zeros_like) simp
    then show ?thesis
      using e1 that by (simp add: conv2d_dx_spec_def window_dx_def)
  qed
  have dw: "elt dw [c, ci, h, v] = conv2d_dw_spec x g bs oy ox c ci h v"
    if r: "c < cout" "ci < cin" "h < H" "v < W" for c ci h v
  proof -
    have "elt dw [c, ci, h, v] = (\<Sum>Y<oy. \<Sum>X<ox. \<Sum>b<bs. elt g [b, c, Y, X] * elt x [b, ci, Y + h, X + v])"
    proof -
      have "elt (zeros_like w :: 'a ndarray) [c, ci, h, v] = 0"
        using r sw by (intro elt_zeros_like) simp
      then show ?thesis using e2 r by (simp add: window_dw_def)
    qed
    also have "\<dots> = (\<Sum>Y<oy. \<Sum>b<bs. \<Sum>X<ox. elt g [b, c, Y, X] * elt x [b, ci, Y + h, X + v])"
      by (intro sum.cong refl sum.swap)
    also have "\<dots> = (\<Sum>b<bs. \<Sum>Y<oy. \<Sum>X<ox. elt g [b, c, Y, X] * elt x [b, ci, Y + h, X + v])"
      by (rule sum.swap)
    finally show ?thesis by (simp add: conv2d_dw_spec_def)
  qed
  from b sh dx dw show ?thesis unfolding oy_def ox_def by blast
qed

section \<open>FastConv2D: the backward pass\<close>

lemma col2im_spec:
  fixes dxi :: "('a::comm_monoid_add) ndarray"
  assumes sd: "shape dxi = [prod_list [bs, oy, ox], prod_list [cin, H, W]]"
    and pos: "0 < oy" "0 < ox" "0 < H" "0 < W"
  shows "col2im dxi H W (int oy + (int H - 1)) (int ox + (int W - 1))
           = Inr (tabulate [bs, cin, oy + H - 1, ox + W - 1]
                    (\<lambda>idx. \<Sum>Y<oy. \<Sum>X<ox.
                        if Y \<le> idx ! 2 \<and> idx ! 2 < Y + H \<and> X \<le> idx ! 3 \<and> idx ! 3 < X + W
                        then elt (dxi\<lparr>shape := [bs, oy, ox, cin, H, W]\<rparr>)
                               [idx ! 0, Y, X, idx ! 1, idx ! 2 - Y, idx ! 3 - X]
                        else 0))"
proof -
  define OY OX where "OY = int oy + (int H - 1)" and "OX = int ox + (int W - 1)"
  have o: "OY - (int H - 1) = int oy" "OX - (int W - 1) = int ox"
    by (simp_all add: OY_def OX_def)
  have n: "nat OY = oy + H - 1" "nat OX = ox + W - 1" "\<not> OY < 0" "\<not> OX < 0"
    using pos by (auto simp: OY_def OX_def)
  have dm: "(bs * (oy * ox)) mod (oy * ox) = 0" "(bs * (oy * ox)) div (oy * ox) = bs"
           "(cin * (H * W)) mod (H * W) = 0" "(cin * (H * W)) div (H * W) = cin"
    using pos by simp_all
  show ?thesis
    unfolding OY_def[symmetric] OX_def[symmetric] col2im_def
    using pos by (simp add: sd o n dm Let_def sum_list_upt)
qed


lemma FastConv2D_backward_spec:
  fixes x w g :: "('a::semiring_0) ndarray"
  assumes sx: "shape x = [bs, cin, iy, ix]" and sw: "shape w = [cout, cin, H, W]"
    and wf: "wf_array w" and cout: "0 < cout"
    and H: "0 < H" "H \<le> iy" and W: "0 < W" "W \<le> ix"
    and sg: "shape g = [bs, cout, iy + 1 - H, ix + 1 - W]"
    and tx: "im2col x H W = Inr tx"
  shows "\<exists>dx dw. FastConv2D_backward col2im [tx, w] g = Inr (Some dx, Some dw)
           \<and> shape dx = [bs, cin, iy, ix] \<and> wf_array dx
           \<and> shape dw = [cout, cin, H, W] \<and> wf_array dw
           \<and> (\<forall>b<bs. \<forall>ci<cin. \<forall>y<iy. \<forall>z<ix.
                 elt dx [b, ci, y, z]
                   = conv2d_dx_spec w g cout (iy + 1 - H) (ix + 1 - W) H W b ci y z)
           \<and> (\<forall>c<cout. \<forall>ci<cin. \<forall>h<H. \<forall>v<W.
                 elt dw [c, ci, h, v]
                   = conv2d_dw_spec x g bs (iy + 1 - H) (ix + 1 - W) c ci h v)"
proof -
  let ?t = "[cin, H, W]"
  define oy ox where "oy = iy + 1 - H" and "ox = ix + 1 - W"
  let ?s = "[bs, oy, ox]"
  define K where "K = prod_list ?t"
  define R where "R = prod_list ?s"
  have pos: "0 < oy" "0 < ox" using H W by (simp_all add: oy_def ox_def)
  have io: "oy + H - 1 = iy" "ox + W - 1 = ix" using H W by (simp_all add: oy_def ox_def)
  have sg': "shape g = [bs, cout, oy, ox]" using sg by (simp add: oy_def ox_def)
  from elt_im2col[OF sx H(2) W(2)] tx have stx: "shape tx = [R, K]"
    and etx: "\<And>b Y X ci h v. b < bs \<Longrightarrow> Y < oy \<Longrightarrow> X < ox \<Longrightarrow> ci < cin \<Longrightarrow> h < H \<Longrightarrow> v < W \<Longrightarrow>
                 elt tx [ravel ?s [b, Y, X], ravel ?t [ci, h, v]] = elt x [b, ci, Y + h, X + v]"
    unfolding oy_def ox_def K_def R_def by auto
  define w2 where "w2 = w\<lparr>shape := [cout, K]\<rparr>"
  have 1: "reshape w [int cout, -1] = Inr w2"
    unfolding w2_def K_def using sw wf cout by (rule reshape_weights)
  define gm where "gm = tabulate [cout, bs, oy, ox] (\<lambda>idx. elt g [idx ! 1, idx ! 0, idx ! 2, idx ! 3])"
  have 2: "moveaxis g [0, 1, 2, 3] [1, 0, 2, 3] = Inr gm"
    unfolding gm_def using sg' by (rule moveaxis_swap01)
  define ggt where "ggt = gm\<lparr>shape := [cout, R]\<rparr>"
  have 3: "reshape gm [int cout, -1] = Inr ggt"
    unfolding ggt_def R_def using cout by (intro reshape_rows) (simp_all add: gm_def)
  define m1 where "m1 = tabulate [cout, K] (\<lambda>idx. \<Sum>r<R. elt ggt [idx ! 0, r] * elt tx [r, idx ! 1])"
  have 4: "dot ggt tx = Inr m1"
    unfolding m1_def using stx by (intro dot_matrix) (simp_all add: ggt_def)
  define dw where "dw = m1\<lparr>shape := [cout, cin, H, W]\<rparr>"
  have 5: "reshape m1 [int cout, int cin, int H, int W] = Inr dw"
    unfolding dw_def by (rule reshape_ints) (simp_all add: m1_def K_def)
  define dxi where "dxi = tabulate [R, K] (\<lambda>idx. \<Sum>c<cout. elt (T ggt) [idx ! 0, c] * elt w2 [c, idx ! 1])"
  have 6: "dot (T ggt) w2 = Inr dxi"
    unfolding dxi_def by (intro dot_matrix) (simp_all add: ggt_def w2_def)
  define t6 where "t6 = dxi\<lparr>shape := [bs, oy, ox, cin, H, W]\<rparr>"
  define dx where "dx = tabulate [bs, cin, iy, ix]
      (\<lambda>idx. \<Sum>Y<oy. \<Sum>X<ox.
         if Y \<le> idx ! 2 \<and> idx ! 2 < Y + H \<and> X \<le> idx ! 3 \<and> idx ! 3 < X + W
         then elt t6 [idx ! 0, Y, X, idx ! 1, idx ! 2 - Y, idx ! 3 - X]
         else 0)"
  have 7: "col2im dxi H W (int oy + (int H - 1)) (int ox + (int W - 1)) = Inr dx"
  proof -
    have sd: "shape dxi = [prod_list ?s, prod_list ?t]"
      by (simp add: dxi_def R_def K_def)
    show ?thesis
      unfolding dx_def t6_def by (rule col2im_spec[OF sd pos H(1) W(1), unfolded io])
  qed
  have b: "FastConv2D_backward col2im [tx, w] g = Inr (Some dx, Some dw)"
    unfolding FastConv2D_backward_def
    using 2 5 by (simp add: sg' sw 1 3 4 6 7)
  have eggt: "elt ggt [c, ravel ?s [b, Y, X]] = elt g [b, c, Y, X]"
    if "c < cout" "b < bs" "Y < oy" "X < ox" for c b Y X
  proof -
    have "elt ggt [c, ravel ?s [b, Y, X]] = elt gm (c # [b, Y, X])"
      unfolding ggt_def R_def by (rule elt_rows) (simp add: gm_def)
    then show ?thesis using that by (simp add: gm_def elt_tabulate)
  qed
  have ew2: "elt w2 [c, ravel ?t [ci, h, v]] = elt w [c, ci, h, v]" for c ci h v
  proof -
    have "elt w2 [c, ravel ?t [ci, h, v]] = elt w (c # [ci, h, v])"
      unfolding w2_def K_def using sw by (intro elt_rows) simp
    then show ?thesis by simp
  qed
  have edw: "elt dw [c, ci, h, v] = conv2d_dw_spec x g bs oy ox c ci h v"
    if r: "c < cout" "ci < cin" "h < H" "v < W" for c ci h v
  proof -
    let ?l = "ravel ?t [ci, h, v]"
    have l: "?l < K" unfolding K_def using r by (intro ravel_less) simp
    have "elt dw (c # [ci, h, v]) = elt m1 [c, ?l]"
      unfolding dw_def by (rule elt_unrows) (simp add: m1_def K_def)
    also have "\<dots> = (\<Sum>k<R. elt ggt [c, k] * elt tx [k, ?l])"
      using r l by (simp add: m1_def elt_tabulate)
    also have "\<dots> = (\<Sum>b<bs. \<Sum>Y<oy. \<Sum>X<ox. elt g [b, c, Y, X] * elt x [b, ci, Y + h, X + v])"
      unfolding R_def
      by (rule sum_flat3) (simp only: eggt[OF r(1)] etx[OF _ _ _ r(2,3,4)])
    finally show ?thesis by (simp add: conv2d_dw_spec_def)
  qed
  have et6: "elt t6 [b, Y, X, ci, h, v] = (\<Sum>c<cout. elt g [b, c, Y, X] * elt w [c, ci, h, v])"
    if r: "b < bs" "Y < oy" "X < ox" "ci < cin" "h < H" "v < W" for b Y X ci h v
  proof -
    let ?r = "ravel ?s [b, Y, X]" and ?l = "ravel ?t [ci, h, v]"
    have rl: "?r < R" unfolding R_def using r by (intro ravel_less) simp
    have l: "?l < K" unfolding K_def using r by (intro ravel_less) simp
    have "elt t6 ([b, Y, X] @ [ci, h, v]) = elt dxi [?r, ?l]"
      unfolding t6_def using r elt_unflatten[of dxi ?s ?t "[b, Y, X]" "[ci, h, v]"]
      by (simp add: dxi_def R_def K_def)
    also have "\<dots> = (\<Sum>c<cout. elt (T ggt) [?r, c] * elt w2 [c, ?l])"
      using rl l by (simp add: dxi_def elt_tabulate)
    also have "\<dots> = (\<Sum>c<cout. elt g [b, c, Y, X] * elt w [c, ci, h, v])"
    proof (rule sum.cong)
      fix c assume "c \<in> {..<cout}"
      then have c: "c < cout" by simp
      have "elt (T ggt) [?r, c] = elt ggt [c, ?r]"
        using c rl by (intro elt_T2) (simp_all add: ggt_def)
      then show "elt (T ggt) [?r, c] * elt w2 [c, ?l] = elt g [b, c, Y, X] * elt w [c, ci, h, v]"
        using eggt[OF c r(1,2,3)] ew2 by simp
    qed simp
    finally show ?thesis by simp
  qed
  have edx: "elt dx [b, ci, y, z] = conv2d_dx_spec w g cout oy ox H W b ci y z"
    if r: "b < bs" "ci < cin" "y < iy" "z < ix" for b ci y z
  proof -
    have "elt dx [b, ci, y, z]
            = (\<Sum>Y<oy. \<Sum>X<ox.
                 if Y \<le> y \<and> y < Y + H \<and> X \<le> z \<and> z < X + W
                 then elt t6 [b, Y, X, ci, y - Y, z - X] else 0)"
      using r by (simp add: dx_def elt_tabulate cong: if_cong)
    also have "\<dots> = (\<Sum>Y<oy. \<Sum>X<ox.
                 if Y \<le> y \<and> y < Y + H \<and> X \<le> z \<and> z < X + W
                 then (\<Sum>c<cout. elt g [b, c, Y, X] * elt w [c, ci, y - Y, z - X]) else 0)"
    proof (intro sum.cong refl)
      fix Y X assume "Y \<in> {..<oy}" "X \<in> {..<ox}"
      then have yx: "Y < oy" "X < ox" by simp_all
      show "(if Y \<le> y \<and> y < Y + H \<and> X \<le> z \<and> z < X + W
             then elt t6 [b, Y, X, ci, y - Y, z - X] else 0)
          = (if Y \<le> y \<and> y < Y + H \<and> X \<le> z \<and> z < X + W
             then (\<Sum>c<cout. elt g [b, c, Y, X] * elt w [c, ci, y - Y, z - X]) else 0)"
      proof (cases "Y \<le> y \<and> y < Y + H \<and> X \<le> z \<and> z < X + W")
        case True
        then have "y - Y < H" "z - X < W" by auto
        from et6[OF r(1) yx r(2) this] True show ?thesis by simp
      next
        case False
        then show ?thesis by auto
      qed
    qed
    finally show ?thesis by (simp add: conv2d_dx_spec_def)
  qed
  have "shape dx = [bs, cin, iy, ix]" "wf_array dx" by (simp_all add: dx_def)
  moreover have "shape dw = [cout, cin, H, W]" "wf_array dw"
    by (simp_all add: dw_def m1_def wf_array_def K_def)
  ultimately show ?thesis using b edx edw unfolding oy_def ox_def by blast
qed

section \<open>Conv2D and FastConv2D agree\<close>

lemma array4_eqI:
  assumes "wf_array A" "wf_array B" "shape A = [a, b, c, d]" "shape B = [a, b, c, d]"
    and "\<And>i j k l. i < a \<Longrightarrow> j < b \<Longrightarrow> k < c \<Longrightarrow> l < d \<Longrightarrow> elt A [i, j, k, l] = elt B [i, j, k, l]"
  shows "A = B"
proof (rule array_eqI)
  fix idx assume "valid_idx (shape A) idx"
  then show "elt A idx = elt B idx"
    using assms(3,5) by (auto simp: valid_idx4)
qed (use assms in simp_all)

text \<open>
  Claim C1. For an input of shape (bs, cin, iy, ix), a weight of shape (cout, cin, H, W)
  with \<open>H \<le> iy\<close> and \<open>W \<le> ix\<close> and an incoming gradient of the shape of the output, all
  dimensions of batch, output channels and kernel being positive as the data model has
  them, the direct convolution and the patch-matrix convolution return the same output,
  and their backward passes return the same input gradient and the same weight gradient.
  The elements are those of a semiring, where a sum does not depend on the order of its
  terms. The common results are the convolution of the specification and its
  two adjoints. The patch extraction and the patch scatter are the ones modelled from the
  specification.
\<close>

theorem C1_conv_equivalence:
  fixes x w g :: "('a::semiring_0) ndarray"
  assumes "shape x = [bs, cin, iy, ix]" and "shape w = [cout, cin, H, W]" and "wf_array w"
    and "0 < bs" and "0 < cout" and "0 < H" and "H \<le> iy" and "0 < W" and "W \<le> ix"
    and "shape g = [bs, cout, iy + 1 - H, ix + 1 - W]"
  shows "\<exists>tx y dx dw.
           im2col x H W = Inr tx
         \<and> Conv2D_forward [] x w = Inr ([x, w], y)
         \<and> FastConv2D_forward im2col [] x w = Inr ([tx, w], y)
         \<and> Conv2D_backward [x, w] g = Inr (Some dx, Some dw)
         \<and> FastConv2D_backward col2im [tx, w] g = Inr (Some dx, Some dw)
         \<and> shape y = [bs, cout, iy + 1 - H, ix + 1 - W]
         \<and> shape dx = [bs, cin, iy, ix] \<and> shape dw = [cout, cin, H, W]
         \<and> (\<forall>b<bs. \<forall>c<cout. \<forall>Y<iy + 1 - H. \<forall>X<ix + 1 - W.
               elt y [b, c, Y, X] = conv2d_spec x w cin H W b c Y X)
         \<and> (\<forall>b<bs. \<forall>ci<cin. \<forall>y<iy. \<forall>z<ix.
               elt dx [b, ci, y, z]
                 = conv2d_dx_spec w g cout (iy + 1 - H) (ix + 1 - W) H W b ci y z)
         \<and> (\<forall>c<cout. \<forall>ci<cin. \<forall>h<H. \<forall>v<W.
               elt dw [c, ci, h, v]
                 = conv2d_dw_spec x g bs (iy + 1 - H) (ix + 1 - W) c ci h v)"
proof -
  note sx = assms(1) and sw = assms(2) and wf = assms(3) and bs = assms(4) and cout = assms(5)
    and H = assms(6,7) and W = assms(8,9) and sg = assms(10)
  from elt_im2col[OF sx H(2) W(2)] obtain tx where tx: "im2col x H W = Inr tx" by blast
  from Conv2D_forward_spec[OF sx sw wf bs cout H(2) W(2), of "[]"]
  obtain y where y: "Conv2D_forward [] x w = Inr ([x, w], y)"
    and sy: "shape y = [bs, cout, iy + 1 - H, ix + 1 - W]" "wf_array y"
    and ey: "\<forall>b<bs. \<forall>c<cout. \<forall>Y<iy + 1 - H. \<forall>X<ix + 1 - W.
               elt y [b, c, Y, X] = conv2d_spec x w cin H W b c Y X"
    by auto
  from FastConv2D_forward_spec[OF sx sw wf cout H(2) W(2) tx, of "[]"]
  obtain y' where y': "FastConv2D_forward im2col [] x w = Inr ([tx, w], y')"
    and sy': "shape y' = [bs, cout, iy + 1 - H, ix + 1 - W]" "wf_array y'"
    and ey': "\<forall>b<bs. \<forall>c<cout. \<forall>Y<iy + 1 - H. \<forall>X<ix + 1 - W.
               elt y' [b, c, Y, X] = conv2d_spec x w cin H W b c Y X"
    by auto
  have yy: "y' = y"
    using sy' sy ey ey' by (intro array4_eqI[of y' y]) auto
  from Conv2D_backward_spec[OF sx sw wf bs cout H(2) W(2) sg]
  obtain dx dw where b: "Conv2D_backward [x, w] g = Inr (Some dx, Some dw)"
    and sd: "shape dx = [bs, cin, iy, ix]" "wf_array dx" "shape dw = [cout, cin, H, W]" "wf_array dw"
    and edx: "\<forall>b<bs. \<forall>ci<cin. \<forall>y<iy. \<forall>z<ix.
               elt dx [b, ci, y, z]
                 = conv2d_dx_spec w g cout (iy + 1 - H) (ix + 1 - W) H W b ci y z"
    and edw: "\<forall>c<cout. \<forall>ci<cin. \<forall>h<H. \<forall>v<W.
               elt dw [c, ci, h, v]
                 = conv2d_dw_spec x g bs (iy + 1 - H) (ix + 1 - W) c ci h v"
    by blast
  from FastConv2D_backward_spec[OF sx sw wf cout H W sg tx]
  obtain dx' dw' where b': "FastConv2D_backward col2im [tx, w] g = Inr (Some dx', Some dw')"
    and sd': "shape dx' = [bs, cin, iy, ix]" "wf_array dx'"
             "shape dw' = [cout, cin, H, W]" "wf_array dw'"
    and edx': "\<forall>b<bs. \<forall>ci<cin. \<forall>y<iy. \<forall>z<ix.
               elt dx' [b, ci, y, z]
                 = conv2d_dx_spec w g cout (iy + 1 - H) (ix + 1 - W) H W b ci y z"
    and edw': "\<forall>c<cout. \<forall>ci<cin. \<forall>h<H. \<forall>v<W.
               elt dw' [c, ci, h, v]
                 = conv2d_dw_spec x g bs (iy + 1 - H) (ix + 1 - W) c ci h v"
    by blast
  have dd: "dx' = dx"
    using sd' sd edx edx' by (intro array4_eqI[of dx' dx]) auto
  have ww: "dw' = dw"
    using sd' sd edw edw' by (intro array4_eqI[of dw' dw]) auto
  show ?thesis
    using tx y y' b b' sy(1) sd(1,3) ey edx edw unfolding yy dd ww
    by (intro exI[of _ tx] exI[of _ y] exI[of _ dx] exI[of _ dw]) simp
qed

theorem C1_conv_equivalence_witness:
  "\<exists>tx y dx dw.
           im2col ex_cx 1 2 = Inr tx
         \<and> Conv2D_forward [] ex_cx ex_cw = Inr ([ex_cx, ex_cw], y)
         \<and> FastConv2D_forward im2col [] ex_cx ex_cw = Inr ([tx, ex_cw], y)
         \<and> Conv2D_backward [ex_cx, ex_cw] ex_cg = Inr (Some dx, Some dw)
         \<and> FastConv2D_backward col2im [tx, ex_cw] ex_cg = Inr (Some dx, Some dw)
         \<and> shape y = [1, 1, 2 + 1 - 1, 2 + 1 - 2]
         \<and> shape dx = [1, 1, 2, 2] \<and> shape dw = [1, 1, 1, 2]
         \<and> (\<forall>b<1. \<forall>c<1. \<forall>Y<2 + 1 - 1. \<forall>X<2 + 1 - 2.
               elt y [b, c, Y, X] = conv2d_spec ex_cx ex_cw 1 1 2 b c Y X)
         \<and> (\<forall>b<1. \<forall>ci<1. \<forall>y<2. \<forall>z<2.
               elt dx [b, ci, y, z]
                 = conv2d_dx_spec ex_cw ex_cg 1 (2 + 1 - 1) (2 + 1 - 2) 1 2 b ci y z)
         \<and> (\<forall>c<1. \<forall>ci<1. \<forall>h<1. \<forall>v<2.
               elt dw [c, ci, h, v]
                 = conv2d_dw_spec ex_cx ex_cg 1 (2 + 1 - 1) (2 + 1 - 2) c ci h v)"
  by (rule C1_conv_equivalence) (simp_all add: ex_cx_def ex_cw_def ex_cg_def wf_array_def)

lemma Conv2D_example:
  "Conv2D_forward [] ex_cx ex_cw = Inr ([ex_cx, ex_cw], \<lparr>shape = [1, 1, 2, 1], data = [19, 43]\<rparr>)"
  "Conv2D_backward [ex_cx, ex_cw] ex_cg
     = Inr (Some \<lparr>shape = [1, 1, 2, 2], data = [50, 70, 500, 700]\<rparr>,
            Some \<lparr>shape = [1, 1, 1, 2], data = [310, 420]\<rparr>)"
  "FastConv2D_backward col2im [ex_tx, ex_cw] ex_cg
     = Inr (Some \<lparr>shape = [1, 1, 2, 2], data = [50, 70, 500, 700]\<rparr>,
            Some \<lparr>shape = [1, 1, 1, 2], data = [310, 420]\<rparr>)"
  by code_simp+

end
